theory Spec2Isabelle
  imports Complex_Main "HOL-Library.Sublist" "HOL-Library.Char_ord" "HOL-Library.List_Lexorder"
    "HOL-Library.Multiset"
begin

section \<open>JavaScript strings\<close>

text \<open>
  The plug-in under study is \<^verbatim>\<open>importMapPlugin\<close> of the package \<^verbatim>\<open>@collagejs/vite-aim\<close>.
  A JavaScript string is modelled as a \<^typ>\<open>string\<close>: each character stands for one UTF-16
  code unit below \<^verbatim>\<open>0x100\<close>. Within that range the class \<^verbatim>\<open>\s\<close> (and what
  \<^verbatim>\<open>String.prototype.trim\<close> removes) is TAB, LF, VT, FF, CR, SPACE and NBSP, and the line
  terminators are LF and CR.
\<close>

definition is_line_terminator :: "char \<Rightarrow> bool" where
  "is_line_terminator c \<longleftrightarrow> c = CHR 0x0A \<or> c = CHR 0x0D"

definition is_white_space :: "char \<Rightarrow> bool" where
  "is_white_space c \<longleftrightarrow>
     c = CHR 0x09 \<or> c = CHR 0x0A \<or> c = CHR 0x0B \<or> c = CHR 0x0C \<or> c = CHR 0x0D \<or>
     c = CHR 0x20 \<or> c = CHR 0xA0"

definition trim :: "string \<Rightarrow> string" where
  "trim s = rev (dropWhile is_white_space (rev (dropWhile is_white_space s)))"

definition startsWith :: "string \<Rightarrow> string \<Rightarrow> bool" where
  "startsWith s p \<longleftrightarrow> prefix p s"

definition endsWith :: "string \<Rightarrow> string \<Rightarrow> bool" where
  "endsWith s p \<longleftrightarrow> prefix (rev p) (rev s)"

text \<open>\<^verbatim>\<open>s.includes(sub)\<close>: \<^verbatim>\<open>sub\<close> occurs in \<^verbatim>\<open>s\<close> as a contiguous substring.\<close>

fun includes_str :: "string \<Rightarrow> string \<Rightarrow> bool" where
  "includes_str [] sub = (sub = [])"
| "includes_str (c # cs) sub = (prefix sub (c # cs) \<or> includes_str cs sub)"

text \<open>\<^verbatim>\<open>parts.join(sep)\<close>.\<close>

fun join_with :: "string \<Rightarrow> string list \<Rightarrow> string" where
  "join_with sep [] = []"
| "join_with sep [x] = x"
| "join_with sep (x # y # ys) = x @ sep @ join_with sep (y # ys)"

section \<open>Configuration\<close>

datatype command = Serve | Build

text \<open>The fields of Vite's resolved configuration that the plug-in reads.\<close>

record resolved_config =
  base :: string
  command :: command

text \<open>The plug-in options, after the defaults of \<^verbatim>\<open>importMapPlugin\<close> have been applied.\<close>

record plugin_options =
  isRoot :: bool
  isBareIdentifier :: "string \<Rightarrow> bool"
  importMapEndpoint :: string
  importMapSenderEndpoint :: string
  allowedOrigins :: "string list"
  importMapTimeout :: nat

definition default_options :: plugin_options where
  "default_options =
     \<lparr> isRoot = True,
       isBareIdentifier = (\<lambda>id. startsWith id ''@''),
       importMapEndpoint = ''/__current_import_map'',
       importMapSenderEndpoint = ''/__collagejs-import-map-sender.js'',
       allowedOrigins = [],
       importMapTimeout = 5000 \<rparr>"

subsection \<open>joinPaths\<close>

text \<open>
  \<^verbatim>\<open>part.replace(/\/+$/g, '')\<close> removes the slashes at the end of the string;
  \<^verbatim>\<open>part.replace(/^\/+|\/+$/g, '')\<close> removes those at the start and those at the end.
  Neither regular expression has the \<^verbatim>\<open>m\<close> flag, so the anchors are the ends of the
  whole string.
\<close>

definition strip_trailing_slashes :: "string \<Rightarrow> string" where
  "strip_trailing_slashes s = rev (dropWhile (\<lambda>c. c = CHR ''/'') (rev s))"

definition strip_slashes :: "string \<Rightarrow> string" where
  "strip_slashes s = strip_trailing_slashes (dropWhile (\<lambda>c. c = CHR ''/'') s)"

text \<open>
  \<^verbatim>\<open>joinPaths(...paths)\<close> puts \<^verbatim>\<open>config.base\<close> in front, trims every part, strips the
  slashes (trailing ones of the first part, both ends of the others), drops the parts that
  became empty and joins the rest with a slash.
\<close>

definition joinPaths :: "resolved_config \<Rightarrow> string list \<Rightarrow> string" where
  "joinPaths config paths =
     join_with ''/''
       (filter (\<lambda>x. x \<noteq> [])
          (strip_trailing_slashes (trim (base config)) # map (\<lambda>part. strip_slashes (trim part)) paths))"

section \<open>Admission filter\<close>

record request =
  req_method :: string
  req_url :: string
  origin_header :: "string option"
  referer_header :: "string option"
  req_body :: string

definition stockPathExceptions :: "plugin_options \<Rightarrow> resolved_config \<Rightarrow> string list" where
  "stockPathExceptions opts config =
     [joinPaths config [''/index.html''],
      joinPaths config [''/''],
      joinPaths config [''/@vite/client'']]
     @ (if isRoot opts then [joinPaths config [importMapSenderEndpoint opts]] else [])"

text \<open>
  \<^verbatim>\<open>shouldBlockJavaScriptRequest(req)\<close>; the third argument is
  \<^verbatim>\<open>ManualResetEvent.isSignaled(importMapReadyEvent.token)\<close>.
\<close>

definition shouldBlockJavaScriptRequest ::
    "plugin_options \<Rightarrow> resolved_config \<Rightarrow> bool \<Rightarrow> request \<Rightarrow> bool" where
  "shouldBlockJavaScriptRequest opts config isSignaled req =
     (if command config \<noteq> Serve then False
      else if req_method req \<noteq> ''GET'' then False
      else if isSignaled then False
      else if req_url req \<in> set (stockPathExceptions opts config) then False
      else True)"

definition get_request :: "string \<Rightarrow> request" where
  "get_request u =
     \<lparr> req_method = ''GET'', req_url = u, origin_header = None, referer_header = None,
       req_body = [] \<rparr>"

text \<open>A POST with the given \<^verbatim>\<open>Origin\<close> header and body, for the examples.\<close>

definition post_request :: "string option \<Rightarrow> string \<Rightarrow> request" where
  "post_request origin text =
     \<lparr> req_method = ''POST'', req_url = ''/'', origin_header = origin, referer_header = None,
       req_body = text \<rparr>"

section \<open>JSON values and own-property order\<close>

text \<open>
  The result of \<^verbatim>\<open>JSON.parse\<close>. \<open>JObj kvs\<close> is the object whose own properties are
  \<open>kvs\<close> in the order of their insertion; the keys of a parsed object are distinct.
\<close>

datatype json =
    JNull
  | JBool bool
  | JNum rat
  | JStr string
  | JArr "json list"
  | JObj "(string \<times> json) list"

definition distinct_keys :: "json \<Rightarrow> bool" where
  "distinct_keys x = (case x of JObj kvs \<Rightarrow> distinct (map fst kvs) | _ \<Rightarrow> True)"

definition digit_char :: "nat \<Rightarrow> char" where
  "digit_char d = char_of (of_char CHR ''0'' + d)"

text \<open>\<^verbatim>\<open>String(n)\<close> for a non-negative integer.\<close>

fun decimal :: "nat \<Rightarrow> string" where
  "decimal n = (if n < 10 then [digit_char n] else decimal (n div 10) @ [digit_char (n mod 10)])"

declare decimal.simps [simp del]

definition is_digit :: "char \<Rightarrow> bool" where
  "is_digit c \<longleftrightarrow> (of_char CHR ''0'' :: nat) \<le> of_char c \<and> (of_char c :: nat) \<le> of_char CHR ''9''"

definition index_value :: "string \<Rightarrow> nat" where
  "index_value s = foldl (\<lambda>acc c. 10 * acc + (of_char c - of_char CHR ''0'')) 0 s"

text \<open>
  An array index is the canonical decimal string of an integer below \<open>2\<^sup>3\<^sup>2 - 1\<close>.
  \<^verbatim>\<open>Object.keys\<close> and \<^verbatim>\<open>Object.entries\<close> list the array-index keys first, in ascending
  numeric order, and then the other string keys in the order of their insertion.
\<close>

definition is_array_index :: "string \<Rightarrow> bool" where
  "is_array_index s \<longleftrightarrow>
     s \<noteq> [] \<and> list_all is_digit s \<and> (s = ''0'' \<or> hd s \<noteq> CHR ''0'') \<and>
     index_value s < 2 ^ 32 - 1"

definition own_property_order :: "(string \<times> 'a) list \<Rightarrow> (string \<times> 'a) list" where
  "own_property_order kvs =
     sort_key (\<lambda>kv. index_value (fst kv)) (filter (\<lambda>kv. is_array_index (fst kv)) kvs)
     @ filter (\<lambda>kv. \<not> is_array_index (fst kv)) kvs"

text \<open>
  \<^verbatim>\<open>Object.entries(x)\<close> and \<^verbatim>\<open>Object.keys(x)\<close> for a parsed JSON value other than
  \<^verbatim>\<open>null\<close>: the elements of an array and the code units of a string are keyed by their
  indices; numbers and booleans have no own enumerable property.
\<close>

definition indexed :: "'a list \<Rightarrow> (string \<times> 'a) list" where
  "indexed xs = zip (map decimal [0..<length xs]) xs"

fun Object_entries :: "json \<Rightarrow> (string \<times> json) list" where
  "Object_entries (JObj kvs) = own_property_order kvs"
| "Object_entries (JArr xs) = indexed xs"
| "Object_entries (JStr s) = indexed (map (\<lambda>c. JStr [c]) s)"
| "Object_entries _ = []"

definition Object_keys :: "json \<Rightarrow> string list" where
  "Object_keys x = map fst (Object_entries x)"

text \<open>Truthiness of a JSON value, and \<^verbatim>\<open>obj.name\<close> on the stored mapping.\<close>

fun truthy :: "json \<Rightarrow> bool" where
  "truthy JNull = False"
| "truthy (JBool b) = b"
| "truthy (JNum r) = (r \<noteq> 0)"
| "truthy (JStr s) = (s \<noteq> [])"
| "truthy (JArr _) = True"
| "truthy (JObj _) = True"

fun own_property :: "json \<Rightarrow> string \<Rightarrow> json option" where
  "own_property (JObj kvs) name = map_of kvs name"
| "own_property _ name = None"

text \<open>
  \<^verbatim>\<open>Object.keys(importMap.imports || {}).length\<close>: an absent or falsy member counts as the
  empty object.
\<close>

definition key_count :: "json option \<Rightarrow> nat" where
  "key_count m =
     (case m of
        None \<Rightarrow> 0
      | Some x \<Rightarrow> if truthy x then length (Object_keys x) else 0)"

section \<open>Shape validation\<close>

datatype exn =
    Error string
  | SyntaxError
  | TypeError
  | ERR_HTTP_HEADERS_SENT
  | ReadFileFailed

text \<open>\<^verbatim>\<open>typeof im === 'object'\<close> holds for \<^verbatim>\<open>null\<close>, for arrays and for objects.\<close>

definition typeof_is_object :: "json \<Rightarrow> bool" where
  "typeof_is_object im = (case im of JNull \<Rightarrow> True | JArr _ \<Rightarrow> True | JObj _ \<Rightarrow> True | _ \<Rightarrow> False)"

text \<open>
  \<^verbatim>\<open>validateIm(im)\<close>: \<open>Inl\<close> carries the error it throws. \<^verbatim>\<open>Array.prototype.sort\<close> without a
  comparator orders strings by their code units.
\<close>

definition validateIm :: "json \<Rightarrow> exn + unit" where
  "validateIm im =
     (if \<not> typeof_is_object im \<or> im = JNull
      then Inl (Error ''Import map must be an object.'')
      else
        (let keys = sort (Object_keys im) in
         if length keys \<noteq> 2 \<or> keys ! 0 \<noteq> ''imports'' \<or> keys ! 1 \<noteq> ''scopes''
         then Inl (Error ''Import map can only contain \"imports\" and \"scopes\" keys.'')
         else Inr ()))"

section \<open>HTTP responses\<close>

text \<open>
  A Node \<^verbatim>\<open>ServerResponse\<close>. \<^verbatim>\<open>writeHead\<close> stores the status line and the headers; called
  again after the head has been stored it throws \<^verbatim>\<open>ERR_HTTP_HEADERS_SENT\<close>. \<^verbatim>\<open>end\<close> writes
  the last chunk and finishes the response.
\<close>

record response =
  status :: nat
  headers :: "(string \<times> string) list"
  head_written :: bool
  body :: string
  ended :: bool

definition new_response :: response where
  "new_response = \<lparr> status = 200, headers = [], head_written = False, body = [], ended = False \<rparr>"

definition writeHead :: "nat \<Rightarrow> (string \<times> string) list \<Rightarrow> response \<Rightarrow> exn + response" where
  "writeHead code hs res =
     (if head_written res then Inl ERR_HTTP_HEADERS_SENT
      else Inr (res\<lparr> status := code, headers := hs, head_written := True \<rparr>))"

definition res_end :: "string \<Rightarrow> response \<Rightarrow> response" where
  "res_end chunk res =
     (if ended res then res
      else res\<lparr> head_written := True, body := body res @ chunk, ended := True \<rparr>)"

section \<open>Gateway state and log\<close>

datatype log_level = Info | Warn | Err

text \<open>
  A log entry keeps the level and what the message reports; the colours and the wording of
  the message text are left out. The logger and the formatters are taken not to throw.
\<close>

datatype log_event =
    RejectedOrigin "string option"
  | ReceivedImportMap "string option" nat nat
  | ImportEntry string json
  | FailedToParse exn
  | BlockingRequest string
  | TimeoutWaiting string
  | ProceedingWith string
  | ErrorWaiting string exn
  | FailedToReadSenderScript exn

type_synonym log_entry = "log_level \<times> log_event"

text \<open>
  The mutable variables of one plug-in instance that the dev-server handlers share:
  \<^verbatim>\<open>importMap\<close> (initially \<^verbatim>\<open>{ imports: {} }\<close>), the state of \<^verbatim>\<open>importMapReadyEvent\<close>
  (initially unsignaled), and what has been logged.
\<close>

record gateway =
  importMap :: json
  signaled :: bool
  logged :: "log_entry list"

definition initial_gateway :: gateway where
  "initial_gateway = \<lparr> importMap = JObj [(''imports'', JObj [])], signaled = False, logged = [] \<rparr>"

definition log_msg :: "log_level \<Rightarrow> log_event \<Rightarrow> gateway \<Rightarrow> gateway" where
  "log_msg lvl ev g = g\<lparr> logged := logged g @ [(lvl, ev)] \<rparr>"

section \<open>Mapping receiver endpoint\<close>

text \<open>\<^verbatim>\<open>a || b\<close> on two optional header values: \<^verbatim>\<open>a\<close> when it is a non-empty string.\<close>

definition js_or :: "string option \<Rightarrow> string option \<Rightarrow> string option" where
  "js_or a b = (case a of Some s \<Rightarrow> if s \<noteq> [] then Some s else b | None \<Rightarrow> b)"

definition isOriginAllowed :: "plugin_options \<Rightarrow> string option \<Rightarrow> bool" where
  "isOriginAllowed opts origin =
     (case origin of
        None \<Rightarrow> False
      | Some orig \<Rightarrow>
          if orig = [] then False
          else if includes_str orig ''localhost'' \<or> includes_str orig ''127.0.0.1''
                  \<or> includes_str orig ''[::1]'' then True
          else list_ex (\<lambda>allowed. includes_str orig allowed) (allowedOrigins opts))"

subsection \<open>Loopback origins, as the specification words them\<close>

text \<open>
  The claim's reading of ``the origin is a loopback address'', for comparison with
  \<^verbatim>\<open>isOriginAllowed\<close>: the host of the origin (the text after \<^verbatim>\<open>://\<close>, up to the path, without
  the port) is \<^verbatim>\<open>localhost\<close>, \<^verbatim>\<open>127.0.0.1\<close> or \<^verbatim>\<open>[::1]\<close>.
\<close>

fun after_scheme :: "string \<Rightarrow> string option" where
  "after_scheme [] = None"
| "after_scheme (c # cs) =
     (if prefix ''://'' (c # cs) then Some (drop 3 (c # cs)) else after_scheme cs)"

definition spec_authority :: "string \<Rightarrow> string" where
  "spec_authority url =
     takeWhile (\<lambda>c. c \<noteq> CHR ''/'' \<and> c \<noteq> CHR ''?'' \<and> c \<noteq> CHR ''#'')
       (case after_scheme url of Some r \<Rightarrow> r | None \<Rightarrow> url)"

definition spec_host :: "string \<Rightarrow> string" where
  "spec_host url =
     (case dropWhile is_digit (rev (spec_authority url)) of
        c # r \<Rightarrow> if c = CHR '':'' then rev r else spec_authority url
      | [] \<Rightarrow> spec_authority url)"

definition spec_is_loopback_origin :: "string \<Rightarrow> bool" where
  "spec_is_loopback_origin url \<longleftrightarrow>
     spec_host url = ''localhost'' \<or> spec_host url = ''127.0.0.1'' \<or> spec_host url = ''[::1]''"

subsection \<open>The handler\<close>

definition json_headers :: "(string \<times> string) list" where
  "json_headers = [(''Content-Type'', ''application/json'')]"

definition cors_headers :: "(string \<times> string) list" where
  "cors_headers =
     [(''Access-Control-Allow-Origin'', ''*''),
      (''Access-Control-Allow-Methods'', ''POST, OPTIONS''),
      (''Access-Control-Allow-Headers'', ''Content-Type'')]"

definition origin_not_allowed_body :: string where
  "origin_not_allowed_body = ''{\"error\":\"Origin not allowed\"}''"

definition invalid_import_map_body :: string where
  "invalid_import_map_body = ''{\"error\":\"Invalid import map data\"}''"

definition method_not_allowed_body :: string where
  "method_not_allowed_body = ''{\"error\":\"Method not allowed\"}''"

definition success_body :: "nat \<Rightarrow> string" where
  "success_body n = ''{\"success\":true,\"imports\":'' @ decimal n @ ''}''"

text \<open>
  What a handler leaves behind: the gateway variables, the response, and the exception that
  escaped it, if any.
\<close>

type_synonym outcome = "gateway \<times> response \<times> exn option"

text \<open>
  The colour formatters applied to the logged texts (\<^verbatim>\<open>fmt.url(value)\<close> is
  \<^verbatim>\<open>pc.blueBright(value)\<close>) turn their argument into a string (\<^verbatim>\<open>"" + input\<close>, or
  \<^verbatim>\<open>String(input)\<close> when colours are off). For a value that came out of \<^verbatim>\<open>JSON.parse\<close>
  the conversion throws a \<^verbatim>\<open>TypeError\<close> exactly when it meets an object with an own
  property \<^verbatim>\<open>toString\<close>: its value is never a function, and the inherited \<^verbatim>\<open>valueOf\<close>
  returns the object itself. An array is joined, so its elements are converted in turn
  (\<^verbatim>\<open>null\<close> elements become the empty text).
\<close>

fun string_coercion_throws :: "json \<Rightarrow> bool" where
  "string_coercion_throws (JObj kvs) = (''toString'' \<in> set (map fst kvs))"
| "string_coercion_throws (JArr xs) = list_ex string_coercion_throws xs"
| "string_coercion_throws JNull = False"
| "string_coercion_throws (JBool b) = False"
| "string_coercion_throws (JNum n) = False"
| "string_coercion_throws (JStr s) = False"

text \<open>
  The loop \<^verbatim>\<open>for (const [key, value] of Object.entries(importMap.imports))\<close> logs one line
  for each entry; it stops at the first value whose conversion throws, with the lines logged
  so far.
\<close>

fun log_import_entries :: "(string \<times> json) list \<Rightarrow> gateway \<Rightarrow> gateway \<times> exn option" where
  "log_import_entries [] g = (g, None)"
| "log_import_entries ((key, v) # kvs) g =
     (if string_coercion_throws v then (g, Some TypeError)
      else log_import_entries kvs (log_msg Info (ImportEntry key v) g))"

definition log_entries :: "json \<Rightarrow> gateway \<Rightarrow> gateway \<times> exn option" where
  "log_entries im g =
     (case own_property im ''imports'' of
        None \<Rightarrow> (g, None)
      | Some x \<Rightarrow> if truthy x then log_import_entries (Object_entries x) g else (g, None))"

text \<open>
  Whether logging the entries of a received value throws does not depend on the gateway; the
  exception is always a \<^verbatim>\<open>TypeError\<close>.
\<close>

definition logging_throws :: "json \<Rightarrow> bool" where
  "logging_throws im = (snd (log_entries im initial_gateway) \<noteq> None)"

text \<open>
  The \<^verbatim>\<open>try\<close> block of the \<^verbatim>\<open>end\<close> callback. \<^verbatim>\<open>JSON.parse\<close> is an argument: it returns
  \<open>None\<close> where the runtime's parser throws. An exception leaves the block with the
  assignments made so far: one thrown while the entries are logged comes after the
  assignment to \<^verbatim>\<open>importMap\<close> and before \<^verbatim>\<open>importMapReadyEvent.signal()\<close>.
\<close>

definition post_try ::
    "(string \<Rightarrow> json option) \<Rightarrow> string option \<Rightarrow> string \<Rightarrow> gateway \<Rightarrow> response \<Rightarrow> outcome" where
  "post_try JSON_parse origin text g res =
     (case JSON_parse text of
        None \<Rightarrow> (g, res, Some SyntaxError)
      | Some receivedImportMap \<Rightarrow>
          (case validateIm receivedImportMap of
             Inl e \<Rightarrow> (g, res, Some e)
           | Inr _ \<Rightarrow>
               (let g1 = g\<lparr> importMap := receivedImportMap \<rparr>;
                    importCount = key_count (own_property (importMap g1) ''imports'');
                    scopeCount = key_count (own_property (importMap g1) ''scopes'');
                    g2 = log_msg Info (ReceivedImportMap origin importCount scopeCount) g1
                in case log_entries (importMap g2) g2 of
                     (g3, Some e) \<Rightarrow> (g3, res, Some e)
                   | (g3, None) \<Rightarrow>
                       (let g4 = g3\<lparr> signaled := True \<rparr>
                        in case writeHead 200 (json_headers @ cors_headers) res of
                             Inl e \<Rightarrow> (g4, res, Some e)
                           | Inr res1 \<Rightarrow> (g4, res_end (success_body importCount) res1, None)))))"

definition post_end ::
    "(string \<Rightarrow> json option) \<Rightarrow> string option \<Rightarrow> string \<Rightarrow> gateway \<Rightarrow> response \<Rightarrow> outcome" where
  "post_end JSON_parse origin text g res =
     (case post_try JSON_parse origin text g res of
        (g1, res1, None) \<Rightarrow> (g1, res1, None)
      | (g1, res1, Some e) \<Rightarrow>
          (let g2 = log_msg Err (FailedToParse e) g1
           in case writeHead 400 json_headers res1 of
                Inl e' \<Rightarrow> (g2, res1, Some e')
              | Inr res2 \<Rightarrow> (g2, res_end invalid_import_map_body res2, None)))"

text \<open>The handler mounted at \<^verbatim>\<open>importMapEndpointUrl\<close>.\<close>

definition receiver ::
    "plugin_options \<Rightarrow> (string \<Rightarrow> json option) \<Rightarrow> gateway \<Rightarrow> request \<Rightarrow> response \<Rightarrow> outcome" where
  "receiver opts JSON_parse g req res =
     (if req_method req = ''POST'' then
        (let origin = js_or (origin_header req) (referer_header req) in
         if \<not> isOriginAllowed opts origin then
           (let g1 = log_msg Warn (RejectedOrigin origin) g
            in case writeHead 403 json_headers res of
                 Inl e \<Rightarrow> (g1, res, Some e)
               | Inr res1 \<Rightarrow> (g1, res_end origin_not_allowed_body res1, None))
         else post_end JSON_parse origin (req_body req) g res)
      else if req_method req = ''OPTIONS'' then
        (case writeHead 200 cors_headers res of
           Inl e \<Rightarrow> (g, res, Some e)
         | Inr res1 \<Rightarrow> (g, res_end [] res1, None))
      else
        (case writeHead 405 (json_headers @ [(''Allow'', ''POST, OPTIONS'')]) res of
           Inl e \<Rightarrow> (g, res, Some e)
         | Inr res1 \<Rightarrow> (g, res_end method_not_allowed_body res1, None)))"

section \<open>Identifier resolver\<close>

text \<open>
  The type \<^verbatim>\<open>ImportMap\<close> the source declares for \<^verbatim>\<open>importMap\<close>: both members are
  optional, \<^verbatim>\<open>imports\<close> is a record of strings. The entries are listed in the order of
  their insertion. (The shape validation of the receiver does not enforce this type on what
  it stores; the resolver is modelled on values of the declared type.)
\<close>

record ImportMap =
  im_imports :: "(string \<times> string) list option"
  im_scopes :: "(string \<times> (string \<times> string) list) list option"

text \<open>
  What \<^verbatim>\<open>resolveFromImportMap\<close> can return: \<^verbatim>\<open>null\<close>, a string, or, because
  \<^verbatim>\<open>importMap.imports[id]\<close> also finds what the record inherits from \<^verbatim>\<open>Object.prototype\<close>,
  one of the inherited members (each of them is truthy).
\<close>

datatype js_value = Undefined | Null | Str string | Inherited string

definition Object_prototype_members :: "string list" where
  "Object_prototype_members =
     [''constructor'', ''__defineGetter__'', ''__defineSetter__'', ''hasOwnProperty'',
      ''__lookupGetter__'', ''__lookupSetter__'', ''isPrototypeOf'', ''propertyIsEnumerable'',
      ''toString'', ''valueOf'', ''__proto__'', ''toLocaleString'']"

definition get_member :: "(string \<times> string) list \<Rightarrow> string \<Rightarrow> js_value" where
  "get_member obj name =
     (case map_of obj name of
        Some v \<Rightarrow> Str v
      | None \<Rightarrow> if name \<in> set Object_prototype_members then Inherited name else Undefined)"

fun is_truthy :: "js_value \<Rightarrow> bool" where
  "is_truthy Undefined = False"
| "is_truthy Null = False"
| "is_truthy (Str s) = (s \<noteq> [])"
| "is_truthy (Inherited _) = True"

text \<open>The loop over \<^verbatim>\<open>Object.entries(importMap.imports)\<close>.\<close>

fun prefix_mapping :: "(string \<times> string) list \<Rightarrow> string \<Rightarrow> js_value" where
  "prefix_mapping [] ident = Null"
| "prefix_mapping ((key, target) # rest) ident =
     (if endsWith key ''/'' \<and> startsWith ident key
      then Str (target @ drop (length key) ident)
      else prefix_mapping rest ident)"

definition resolveFromImportMap :: "ImportMap \<Rightarrow> string \<Rightarrow> js_value" where
  "resolveFromImportMap im ident =
     (case im_imports im of
        None \<Rightarrow> Null
      | Some imps \<Rightarrow>
          if is_truthy (get_member imps ident) then get_member imps ident
          else prefix_mapping (own_property_order imps) ident)"

subsection \<open>The resolveId hook\<close>

record resolved_id =
  rid :: js_value
  external :: bool

text \<open>
  \<^verbatim>\<open>resolveId(id, _importer)\<close>: the result of the hook (\<open>None\<close> for \<^verbatim>\<open>null\<close>) and the
  set \<^verbatim>\<open>externalizedModules\<close> after the call.
\<close>

definition resolveId ::
    "plugin_options \<Rightarrow> ImportMap \<Rightarrow> js_value set \<Rightarrow> string \<Rightarrow> resolved_id option \<times> js_value set" where
  "resolveId opts im externalizedModules ident =
     (if \<not> isBareIdentifier opts ident then (None, externalizedModules)
      else
        (let resolved = resolveFromImportMap im ident;
             target = (if is_truthy resolved then resolved else Str ident)
         in (Some \<lparr> rid = target, external = True \<rparr>, insert target externalizedModules)))"

section \<open>Request blocking middleware\<close>

text \<open>
  What \<^verbatim>\<open>await ManualResetEvent.waitAsync(token, importMapTimeout)\<close> yields: the promise
  resolves with a string, or it rejects.
\<close>

datatype wait_outcome = Resolved string | Rejected exn

text \<open>
  The middleware returns the gateway (with what it logged), the response object it was
  handed, and whether it called \<^verbatim>\<open>next()\<close>.
\<close>

definition blocking_middleware ::
    "plugin_options \<Rightarrow> resolved_config \<Rightarrow> wait_outcome \<Rightarrow> gateway \<Rightarrow> request \<Rightarrow> response
       \<Rightarrow> gateway \<times> response \<times> bool" where
  "blocking_middleware opts config waited g req res =
     (if \<not> shouldBlockJavaScriptRequest opts config (signaled g) req then (g, res, True)
      else
        (let g1 = log_msg Warn (BlockingRequest (req_url req)) g;
             g2 = (case waited of
                     Resolved waitResponse \<Rightarrow>
                       if waitResponse = ''timed-out''
                       then log_msg Warn (TimeoutWaiting (req_url req)) g1
                       else log_msg Info (ProceedingWith (req_url req)) g1
                   | Rejected e \<Rightarrow> log_msg Warn (ErrorWaiting (req_url req) e) g1)
         in (g2, res, True)))"

section \<open>Sender script endpoint\<close>

text \<open>
  The replacement string of \<^verbatim>\<open>String.prototype.replace\<close>: \<^verbatim>\<open>$$\<close> stands for a dollar sign,
  \<^verbatim>\<open>$&\<close> for the matched text, \<^verbatim>\<open>$`\<close> for the text before the match and \<^verbatim>\<open>$'\<close> for the
  text after it. The pattern has no capture group, so every other \<^verbatim>\<open>$\<close> is literal.
\<close>

fun expand_replacement :: "string \<Rightarrow> string \<Rightarrow> string \<Rightarrow> string \<Rightarrow> string" where
  "expand_replacement [] matched before after = []"
| "expand_replacement [c] matched before after = [c]"
| "expand_replacement (c # d # r) matched before after =
     (if c = CHR ''$'' \<and> d = CHR ''$'' then CHR ''$'' # expand_replacement r matched before after
      else if c = CHR ''$'' \<and> d = CHR ''&'' then matched @ expand_replacement r matched before after
      else if c = CHR ''$'' \<and> d = CHR 0x60 then before @ expand_replacement r matched before after
      else if c = CHR ''$'' \<and> d = CHR 0x27 then after @ expand_replacement r matched before after
      else c # expand_replacement (d # r) matched before after)"

text \<open>
  \<^verbatim>\<open>senderScript.replace(/}\)\(\);$/, replacement)\<close>: the pattern has no flag, so \<^verbatim>\<open>$\<close> is the
  end of the text and the only possible match is the text's last five characters.
\<close>

definition replace_final_call :: "string \<Rightarrow> string \<Rightarrow> string" where
  "replace_final_call senderScript replacement =
     (if endsWith senderScript ''})();''
      then (let before = take (length senderScript - 5) senderScript
            in before @ expand_replacement replacement ''})();'' before [])
      else senderScript)"

definition sender_replacement :: "bool \<Rightarrow> string \<Rightarrow> string" where
  "sender_replacement is_root importMapEndpointUrl =
     ''})('' @ (if is_root then ''true'' else ''false'') @ '', '' @ [CHR 0x27]
       @ importMapEndpointUrl @ [CHR 0x27] @ '');''"

definition failed_to_load_body :: string where
  "failed_to_load_body = ''{\"error\":\"Failed to load sender script\"}''"

text \<open>
  The handler mounted at \<^verbatim>\<open>importMapSenderUrl\<close> when \<^verbatim>\<open>isRoot\<close> holds. The third argument
  is what \<^verbatim>\<open>readFileSync\<close> returns for \<^verbatim>\<open>import-map-sender.js\<close>, \<open>None\<close> where it throws.
\<close>

definition sender_script_middleware ::
    "plugin_options \<Rightarrow> resolved_config \<Rightarrow> string option \<Rightarrow> gateway \<Rightarrow> response \<Rightarrow> outcome" where
  "sender_script_middleware opts config senderFile g res =
     (case writeHead 200
             [(''Content-Type'', ''application/javascript''), (''Access-Control-Allow-Origin'', ''*'')]
             res of
        Inl e \<Rightarrow> (g, res, Some e)
      | Inr res1 \<Rightarrow>
          (case senderFile of
             Some senderScript \<Rightarrow>
               (g,
                res_end
                  (replace_final_call senderScript
                     (sender_replacement (isRoot opts) (joinPaths config [importMapEndpoint opts])))
                  res1,
                None)
           | None \<Rightarrow>
               (let g1 = log_msg Err (FailedToReadSenderScript ReadFileFailed) g
                in case writeHead 500 json_headers res1 of
                     Inl e \<Rightarrow> (g1, res1, Some e)
                   | Inr res2 \<Rightarrow> (g1, res_end failed_to_load_body res2, None))))"

section \<open>Sender injector\<close>

subsection \<open>The regular expression of findLastImportStatement\<close>

text \<open>
  \<^verbatim>\<open>/^\s*import\s.+;?$/gm\<close> is a sequence of assertions and of quantified character
  classes. The matcher below follows the backtracking order of a JavaScript regular
  expression: a greedy quantifier first tries to take one more character, and falls back to
  the rest of the pattern when that fails. With the \<^verbatim>\<open>m\<close> flag \<^verbatim>\<open>^\<close> holds at the start of
  the text and after a line terminator, \<^verbatim>\<open>$\<close> at the end of the text and before a line
  terminator. \<open>rx_match re prev rest\<close> matches \<open>re\<close> at a position whose preceding character
  is \<open>prev\<close> and whose remaining text is \<open>rest\<close>, and returns the length of the match.
\<close>

datatype rx_item =
    Bol
  | Eol
  | One "char \<Rightarrow> bool"
  | Star "char \<Rightarrow> bool"
  | Plus "char \<Rightarrow> bool"
  | Opt "char \<Rightarrow> bool"

definition at_line_start :: "char option \<Rightarrow> bool" where
  "at_line_start prev = (case prev of None \<Rightarrow> True | Some c \<Rightarrow> is_line_terminator c)"

definition at_line_end :: "string \<Rightarrow> bool" where
  "at_line_end rest = (case rest of [] \<Rightarrow> True | c # _ \<Rightarrow> is_line_terminator c)"

fun rx_match :: "rx_item list \<Rightarrow> char option \<Rightarrow> string \<Rightarrow> nat option" where
  "rx_match [] prev rest = Some 0"
| "rx_match (Bol # r) prev rest = (if at_line_start prev then rx_match r prev rest else None)"
| "rx_match (Eol # r) prev rest = (if at_line_end rest then rx_match r prev rest else None)"
| "rx_match (One p # r) prev [] = None"
| "rx_match (One p # r) prev (c # cs) =
     (if p c then map_option Suc (rx_match r (Some c) cs) else None)"
| "rx_match (Opt p # r) prev [] = rx_match r prev []"
| "rx_match (Opt p # r) prev (c # cs) =
     (if p c
      then (case rx_match r (Some c) cs of
              Some n \<Rightarrow> Some (Suc n)
            | None \<Rightarrow> rx_match r prev (c # cs))
      else rx_match r prev (c # cs))"
| "rx_match (Star p # r) prev [] = rx_match r prev []"
| "rx_match (Star p # r) prev (c # cs) =
     (if p c
      then (case rx_match (Star p # r) (Some c) cs of
              Some n \<Rightarrow> Some (Suc n)
            | None \<Rightarrow> rx_match r prev (c # cs))
      else rx_match r prev (c # cs))"
| "rx_match (Plus p # r) prev [] = None"
| "rx_match (Plus p # r) prev (c # cs) =
     (if p c then map_option Suc (rx_match (Star p # r) (Some c) cs) else None)"

text \<open>The pattern \<^verbatim>\<open>^\s*import\s.+;?$\<close>.\<close>

definition import_regex :: "rx_item list" where
  "import_regex =
     [Bol, Star is_white_space]
     @ map (\<lambda>ch. One (\<lambda>c. c = ch)) ''import''
     @ [One is_white_space, Plus (\<lambda>c. \<not> is_line_terminator c), Opt (\<lambda>c. c = CHR '';''), Eol]"

text \<open>
  \<^verbatim>\<open>regex.exec(s)\<close> with the \<^verbatim>\<open>g\<close> flag: the search starts at \<^verbatim>\<open>regex.lastIndex\<close>, tries
  each position up to the end of the text, and returns the index and the end of the first
  match.
\<close>

definition char_before :: "string \<Rightarrow> nat \<Rightarrow> char option" where
  "char_before s i = (if i = 0 then None else Some (s ! (i - 1)))"

function rx_exec :: "rx_item list \<Rightarrow> string \<Rightarrow> nat \<Rightarrow> (nat \<times> nat) option" where
  "rx_exec re s lastIndex =
     (if lastIndex > length s then None
      else (case rx_match re (char_before s lastIndex) (drop lastIndex s) of
              Some n \<Rightarrow> Some (lastIndex, lastIndex + n)
            | None \<Rightarrow> rx_exec re s (Suc lastIndex)))"
  by pat_completeness auto
termination
  by (relation "measure (\<lambda>(re, s, i). Suc (length s) - i)") auto

declare rx_exec.simps [simp del]

text \<open>Every match of the pattern takes at least eight characters, so the loop advances.\<close>

fun min_length :: "rx_item list \<Rightarrow> nat" where
  "min_length [] = 0"
| "min_length (One p # r) = Suc (min_length r)"
| "min_length (Plus p # r) = Suc (min_length r)"
| "min_length (_ # r) = min_length r"

lemma rx_match_bounds:
  "rx_match re prev rest = Some n \<Longrightarrow> min_length re \<le> n \<and> n \<le> length rest"
  by (induction re prev rest arbitrary: n rule: rx_match.induct)
     (fastforce split: if_splits option.splits)+

lemma min_length_import_regex: "min_length import_regex = 8"
  by (simp add: import_regex_def)

lemma rx_exec_Some:
  "rx_exec re s i = Some (idx, e) \<Longrightarrow>
     i \<le> idx \<and> idx \<le> length s \<and>
     (\<exists>n. rx_match re (char_before s idx) (drop idx s) = Some n \<and> e = idx + n) \<and>
     (\<forall>j. i \<le> j \<and> j < idx \<longrightarrow> rx_match re (char_before s j) (drop j s) = None)"
proof (induction re s i rule: rx_exec.induct)
  case (1 re s i)
  show ?case
  proof (cases "rx_match re (char_before s i) (drop i s)")
    case None
    with "1.prems" have le: "\<not> length s < i" and rec: "rx_exec re s (Suc i) = Some (idx, e)"
      by (auto simp: rx_exec.simps [of re s i] split: if_splits)
    from "1.IH" [OF le None rec] have ih:
      "Suc i \<le> idx" "idx \<le> length s"
      "\<exists>n. rx_match re (char_before s idx) (drop idx s) = Some n \<and> e = idx + n"
      "\<forall>j. Suc i \<le> j \<and> j < idx \<longrightarrow> rx_match re (char_before s j) (drop j s) = None"
      by blast+
    have "rx_match re (char_before s j) (drop j s) = None" if "i \<le> j" "j < idx" for j
    proof (cases "j = i")
      case True
      with None show ?thesis by simp
    next
      case False
      with that have "Suc i \<le> j" by simp
      with ih(4) that show ?thesis by blast
    qed
    with ih show ?thesis by auto
  next
    case (Some n)
    with "1.prems" show ?thesis
      by (auto simp: rx_exec.simps [of re s i] split: if_splits)
  qed
qed

lemma rx_exec_None:
  "rx_exec re s i = None \<Longrightarrow> i \<le> j \<Longrightarrow> j \<le> length s \<Longrightarrow>
     rx_match re (char_before s j) (drop j s) = None"
proof (induction re s i rule: rx_exec.induct)
  case (1 re s i)
  from "1.prems" have le: "\<not> length s < i" by simp
  from "1.prems"(1) le have here: "rx_match re (char_before s i) (drop i s) = None"
    by (auto simp: rx_exec.simps [of re s i] split: option.splits)
  with "1.prems"(1) le have rec: "rx_exec re s (Suc i) = None"
    by (auto simp: rx_exec.simps [of re s i])
  show ?case
  proof (cases "j = i")
    case True
    with here show ?thesis by simp
  next
    case False
    with "1.prems" have "Suc i \<le> j" by simp
    from "1.IH" [OF le here rec this "1.prems"(3)] show ?thesis .
  qed
qed

lemma import_exec_advances:
  assumes "rx_exec import_regex code i = Some (idx, e)"
  shows "i < e \<and> e \<le> length code"
proof -
  from rx_exec_Some [OF assms] obtain n where
    a: "i \<le> idx" "idx \<le> length code"
    and m: "rx_match import_regex (char_before code idx) (drop idx code) = Some n"
    and e: "e = idx + n"
    by blast
  from rx_match_bounds [OF m] have "8 \<le> n" "n \<le> length code - idx"
    by (simp_all add: min_length_import_regex)
  with a e show ?thesis by simp
qed

text \<open>
  The \<^verbatim>\<open>while\<close> loop of \<^verbatim>\<open>findLastImportStatement\<close>: \<open>regexLastIndex\<close> is
  \<^verbatim>\<open>importRegex.lastIndex\<close>, \<open>lastIndex\<close> the local variable of that name.
\<close>

function last_import_end :: "string \<Rightarrow> nat \<Rightarrow> int \<Rightarrow> int" where
  "last_import_end code regexLastIndex lastIndex =
     (case rx_exec import_regex code regexLastIndex of
        None \<Rightarrow> lastIndex
      | Some (index, e) \<Rightarrow> last_import_end code e (int e))"
  by pat_completeness auto
termination
proof (relation "measure (\<lambda>(code, li, acc). Suc (length code) - li)")
  show "wf (measure (\<lambda>(code, li, acc). Suc (length code) - li))" by simp
next
  fix code :: string and regexLastIndex :: nat and lastIndex :: int and x2 x y
  assume "rx_exec import_regex code regexLastIndex = Some x2" and "(x, y) = x2"
  then have "rx_exec import_regex code regexLastIndex = Some (x, y)" by simp
  from import_exec_advances [OF this]
  have "regexLastIndex < y" "y \<le> length code" by simp_all
  then show "((code, y, int y), code, regexLastIndex, lastIndex)
          \<in> measure (\<lambda>(code, li, acc). Suc (length code) - li)"
    by simp
qed

definition findLastImportStatement :: "string \<Rightarrow> int" where
  "findLastImportStatement code = last_import_end code 0 (- 1)"

subsection \<open>What the pattern matches\<close>

text \<open>
  The pattern read as a description of text: optional white space (which may run over
  several lines), the word \<^verbatim>\<open>import\<close>, one white-space character, and a non-empty rest of
  a line, up to the end of that line. \<open>import_statement_match rest n\<close> says that \<open>rest\<close>
  begins with such a text of length \<open>n\<close>; \<open>import_statement_at code start n\<close> that one
  begins at the line start \<open>start\<close> of \<open>code\<close>. That the matcher finds exactly these is
  proved below.
\<close>

definition import_statement_match :: "string \<Rightarrow> nat \<Rightarrow> bool" where
  "import_statement_match rest n \<longleftrightarrow>
     (\<exists>ws w line.
        list_all is_white_space ws \<and> is_white_space w \<and> line \<noteq> [] \<and>
        list_all (\<lambda>c. \<not> is_line_terminator c) line \<and>
        n = length (ws @ ''import'' @ [w] @ line) \<and>
        rest = ws @ ''import'' @ [w] @ line @ drop n rest \<and>
        at_line_end (drop n rest))"

definition import_statement_at :: "string \<Rightarrow> nat \<Rightarrow> nat \<Rightarrow> bool" where
  "import_statement_at code start n \<longleftrightarrow>
     start \<le> length code \<and> at_line_start (char_before code start) \<and>
     import_statement_match (drop start code) n"

text \<open>
  The scan as a whole. \<open>import_scan code i ms\<close> says that \<open>ms\<close> lists, as pairs of a start
  and a length, the import statements that a search from left to right finds from position
  \<open>i\<close> on: each entry is the first import statement that begins at or after the end of the
  entry before it (at or after \<open>i\<close> for the first entry), and none begins at or after the end
  of the last entry. An import statement that begins inside an earlier entry is therefore
  not listed. That the loop of \<^verbatim>\<open>findLastImportStatement\<close> finds exactly this list is proved
  below.
\<close>

definition match_end :: "nat \<times> nat \<Rightarrow> nat" where
  "match_end m = fst m + snd m"

inductive import_scan :: "string \<Rightarrow> nat \<Rightarrow> (nat \<times> nat) list \<Rightarrow> bool" for code :: string where
  scan_done:
    "\<forall>start n. i \<le> start \<longrightarrow> \<not> import_statement_at code start n \<Longrightarrow> import_scan code i []"
| scan_match:
    "i \<le> start \<Longrightarrow> import_statement_at code start n \<Longrightarrow>
     \<forall>s m. i \<le> s \<and> s < start \<longrightarrow> \<not> import_statement_at code s m \<Longrightarrow>
     import_scan code (start + n) ms \<Longrightarrow>
     import_scan code i ((start, n) # ms)"

text \<open>
  For comparison, the reading under which the text is cut into its lines and each line is
  tested against the pattern on its own. It is not what the source does.
\<close>

fun spec_lines :: "string \<Rightarrow> string list" where
  "spec_lines [] = [[]]"
| "spec_lines (c # cs) =
     (if is_line_terminator c then [] # spec_lines cs
      else (case spec_lines cs of
              l # ls \<Rightarrow> (c # l) # ls
            | [] \<Rightarrow> [[c]]))"

definition spec_line_is_import :: "string \<Rightarrow> bool" where
  "spec_line_is_import line \<longleftrightarrow> rx_exec import_regex line 0 \<noteq> None"

definition spec_has_import_line :: "string \<Rightarrow> bool" where
  "spec_has_import_line code = list_ex spec_line_is_import (spec_lines code)"

text \<open>Names for the parts of the pattern, used in the proofs.\<close>

abbreviation (input) dot :: "char \<Rightarrow> bool" where
  "dot \<equiv> (\<lambda>c. \<not> is_line_terminator c)"

abbreviation (input) semi :: "char \<Rightarrow> bool" where
  "semi \<equiv> (\<lambda>c. c = CHR '';'')"

abbreviation (input) lit :: "char \<Rightarrow> rx_item" where
  "lit \<equiv> (\<lambda>ch. One (\<lambda>c. c = ch))"

definition import_tail :: "rx_item list" where
  "import_tail = map lit ''import''
     @ [One is_white_space, Plus dot, Opt semi, Eol]"

subsection \<open>The transform hook\<close>

definition newline :: string where
  "newline = [CHR 0x0A]"

text \<open>
  \<^verbatim>\<open>transform(code, id)\<close>: \<open>Inr None\<close> is the result \<^verbatim>\<open>null\<close>, \<open>Inr (Some c)\<close> the result
  \<^verbatim>\<open>{ code: c, map: null }\<close>. The second argument is what \<^verbatim>\<open>readFileSync\<close> returns for
  \<^verbatim>\<open>import-map-sender.js\<close>, \<open>None\<close> where it throws.
\<close>

definition transform :: "command \<Rightarrow> string option \<Rightarrow> string \<Rightarrow> string \<Rightarrow> exn + string option" where
  "transform runEnv_command senderFile code ident =
     (if runEnv_command = Build then Inr None
      else if endsWith ident ''/vite/dist/client/client.mjs'' then
        (case senderFile of
           None \<Rightarrow> Inl ReadFileFailed
         | Some imsScript \<Rightarrow>
             (let index = findLastImportStatement code in
              if index = - 1 then Inr (Some (imsScript @ newline @ code))
              else Inr (Some (take (nat index) code @ newline @ imsScript @ newline
                              @ drop (nat index) code))))
      else Inr None)"

text \<open>A client script with two import lines, for the examples.\<close>

definition example_client :: string where
  "example_client =
     ''import \"@vite/env\";'' @ newline @ ''import { x } from \"y\";'' @ newline @ ''const a = 1;''"

section \<open>Properties of the admission filter\<close>

lemma shouldBlock_iff:
  "shouldBlockJavaScriptRequest opts config isSignaled req \<longleftrightarrow>
     command config = Serve \<and> req_method req = ''GET'' \<and> \<not> isSignaled \<and>
     req_url req \<notin> set (stockPathExceptions opts config)"
  by (simp add: shouldBlockJavaScriptRequest_def)

lemma stockPathExceptions_default:
  "stockPathExceptions default_options \<lparr>base = ''/'', command = Serve\<rparr> =
     [''index.html'', '''', ''@vite/client'', ''__collagejs-import-map-sender.js'']"
  by (simp add: stockPathExceptions_def joinPaths_def default_options_def trim_def
      strip_slashes_def strip_trailing_slashes_def is_white_space_def)

lemma endsWith_slash_iff: "endsWith s ''/'' \<longleftrightarrow> s \<noteq> [] \<and> last s = CHR ''/''"
proof (cases s rule: rev_cases)
  case Nil
  then show ?thesis by (simp add: endsWith_def)
next
  case (snoc ys y)
  then show ?thesis by (auto simp: endsWith_def)
qed

lemma strip_trailing_slashes_last:
  "strip_trailing_slashes s \<noteq> [] \<Longrightarrow> last (strip_trailing_slashes s) \<noteq> CHR ''/''"
proof -
  assume n: "strip_trailing_slashes s \<noteq> []"
  define l where "l = dropWhile (\<lambda>c. c = CHR ''/'') (rev s)"
  from n have "l \<noteq> []" by (simp add: l_def strip_trailing_slashes_def)
  then have "hd l \<noteq> CHR ''/''" unfolding l_def by (rule hd_dropWhile)
  moreover have "last (rev l) = hd l" using \<open>l \<noteq> []\<close> by (simp add: last_rev)
  ultimately show ?thesis by (simp add: strip_trailing_slashes_def l_def)
qed

lemma join_with_last:
  "xs \<noteq> [] \<Longrightarrow> (\<And>x. x \<in> set xs \<Longrightarrow> x \<noteq> []) \<Longrightarrow>
     join_with sep xs \<noteq> [] \<and> last (join_with sep xs) = last (last xs)"
  by (induction sep xs rule: join_with.induct) simp_all

lemma joinPaths_end: "\<not> endsWith (joinPaths config paths) ''/''"
proof -
  define parts where "parts = filter (\<lambda>x. x \<noteq> [])
     (strip_trailing_slashes (trim (base config)) # map (\<lambda>part. strip_slashes (trim part)) paths)"
  have j: "joinPaths config paths = join_with ''/'' parts" by (simp add: joinPaths_def parts_def)
  show ?thesis
  proof (cases "parts = []")
    case True
    with j show ?thesis by (simp add: endsWith_slash_iff)
  next
    case False
    have all: "\<forall>x \<in> set parts. x \<noteq> [] \<and> (\<exists>s. x = strip_trailing_slashes s)"
      unfolding parts_def set_filter by (auto simp: strip_slashes_def)
    then have ne: "x \<noteq> []" if "x \<in> set parts" for x using that by blast
    from False have "last parts \<in> set parts" by simp
    with all have "last parts \<noteq> []" and "\<exists>s. last parts = strip_trailing_slashes s"
      by blast+
    then have "last (last parts) \<noteq> CHR ''/''" using strip_trailing_slashes_last by auto
    with join_with_last [OF False ne, of "''/''"] j show ?thesis
      by (simp add: endsWith_slash_iff)
  qed
qed

text \<open>
  No entry of the exception list ends in a slash, whatever the base: a GET of a URL that
  ends in a slash, such as the document root \<^verbatim>\<open>/\<close> or \<^verbatim>\<open>/app/\<close>, is always held at the gate.
\<close>

lemma url_with_trailing_slash_blocked:
  "command config = Serve \<Longrightarrow> req_method req = ''GET'' \<Longrightarrow> endsWith (req_url req) ''/'' \<Longrightarrow>
     shouldBlockJavaScriptRequest opts config False req"
  using joinPaths_end [of config]
  by (auto simp: shouldBlock_iff stockPathExceptions_def)

text \<open>
  C2. The filter lets a request pass exactly when the server is not in serve mode, the method
  is not GET, the gate is signaled, or the URL is in the exception list. The entries of
  that list are built by \<^verbatim>\<open>joinPaths\<close>, which strips the slash of the base \<^verbatim>\<open>/\<close> and
  then drops the empty part: under the default base the entries are \<^verbatim>\<open>index.html\<close>, the
  empty string, \<^verbatim>\<open>@vite/client\<close> and the sender path without its leading slash, so a GET
  of \<^verbatim>\<open>/index.html\<close> or of the document root \<^verbatim>\<open>/\<close> is held at the gate.
\<close>

theorem C2_index_html_blocked_under_default_base:
  "shouldBlockJavaScriptRequest default_options \<lparr>base = ''/'', command = Serve\<rparr> False
     (get_request ''/index.html'') = True
   \<and> shouldBlockJavaScriptRequest default_options \<lparr>base = ''/'', command = Serve\<rparr> False
     (get_request ''/'') = True
   \<and> stockPathExceptions default_options \<lparr>base = ''/'', command = Serve\<rparr> =
     [''index.html'', '''', ''@vite/client'', ''__collagejs-import-map-sender.js'']"
  by (simp add: shouldBlock_iff stockPathExceptions_default get_request_def)

section \<open>Properties of the shape validation\<close>

lemma map_fst_indexed: "map fst (indexed xs) = map decimal [0..<length xs]"
  by (simp add: indexed_def)

lemma mset_own_property_order: "mset (own_property_order kvs) = mset kvs"
  by (simp add: own_property_order_def)

lemma set_keys_own_property_order: "set (map fst (own_property_order kvs)) = set (map fst kvs)"
  by (metis mset_own_property_order mset_map set_mset_mset)

lemma distinct_keys_own_property_order:
  "distinct (map fst (own_property_order kvs)) = distinct (map fst kvs)"
  by (metis mset_own_property_order mset_map mset_eq_imp_distinct_iff)

lemma sort_pair_iff:
  fixes l :: "string list"
  assumes "distinct l"
  shows "(\<not> (length (sort l) \<noteq> 2 \<or> sort l ! 0 \<noteq> ''imports'' \<or> sort l ! 1 \<noteq> ''scopes''))
         \<longleftrightarrow> set l = {''imports'', ''scopes''}"
proof
  assume h: "\<not> (length (sort l) \<noteq> 2 \<or> sort l ! 0 \<noteq> ''imports'' \<or> sort l ! 1 \<noteq> ''scopes'')"
  then have "sort l = [''imports'', ''scopes'']"
    by (cases "sort l"; cases "tl (sort l)") (auto simp: nth_Cons')
  then have "set (sort l) = {''imports'', ''scopes''}" by simp
  then show "set l = {''imports'', ''scopes''}" by simp
next
  assume s: "set l = {''imports'', ''scopes''}"
  have "sort l = [''imports'', ''scopes'']"
  proof (rule sorted_distinct_set_unique)
    show "sorted (sort l)" by simp
    show "distinct (sort l)" using assms by simp
    show "sorted [''imports'', ''scopes'']" by simp
    show "distinct [''imports'', ''scopes'']" by simp
    show "set (sort l) = set [''imports'', ''scopes'']" using s by simp
  qed
  then show "\<not> (length (sort l) \<noteq> 2 \<or> sort l ! 0 \<noteq> ''imports'' \<or> sort l ! 1 \<noteq> ''scopes'')"
    by simp
qed

lemma validateIm_JObj:
  assumes "distinct (map fst kvs)"
  shows "validateIm (JObj kvs) = Inr () \<longleftrightarrow> set (map fst kvs) = {''imports'', ''scopes''}"
proof -
  let ?l = "map fst (own_property_order kvs)"
  have d: "distinct ?l" using assms by (simp add: distinct_keys_own_property_order)
  have "validateIm (JObj kvs) = Inr () \<longleftrightarrow>
        \<not> (length (sort ?l) \<noteq> 2 \<or> sort ?l ! 0 \<noteq> ''imports'' \<or> sort ?l ! 1 \<noteq> ''scopes'')"
    by (simp add: validateIm_def typeof_is_object_def Object_keys_def Let_def)
  also have "\<dots> \<longleftrightarrow> set ?l = {''imports'', ''scopes''}"
    by (rule sort_pair_iff [OF d])
  finally show ?thesis by (simp only: set_keys_own_property_order)
qed

lemma decimal_0: "decimal 0 = ''0''" by code_simp
lemma decimal_1: "decimal (Suc 0) = ''1''" by code_simp

lemma validateIm_JArr: "validateIm (JArr xs) \<noteq> Inr ()"
proof (cases "length xs = 2")
  case True
  then have "[0..<length xs] = [0, 1]" by (simp add: upt_rec)
  then have "Object_keys (JArr xs) = [''0'', ''1'']"
    by (simp add: Object_keys_def map_fst_indexed decimal_0 decimal_1)
  then show ?thesis by (simp add: validateIm_def typeof_is_object_def)
next
  case False
  then show ?thesis
    by (simp add: validateIm_def typeof_is_object_def Object_keys_def map_fst_indexed Let_def)
qed

lemma validateIm_accepts_iff:
  assumes "distinct_keys im"
  shows "validateIm im = Inr () \<longleftrightarrow>
         (\<exists>kvs. im = JObj kvs \<and> set (map fst kvs) = {''imports'', ''scopes''})"
proof (cases im)
  case (JObj kvs)
  with assms have "distinct (map fst kvs)" by (simp add: distinct_keys_def)
  from validateIm_JObj [OF this] JObj show ?thesis by simp
next
  case (JArr xs)
  with validateIm_JArr [of xs] show ?thesis by simp
qed (simp_all add: validateIm_def typeof_is_object_def)

lemma writeHead_new [simp]:
  "writeHead code hs new_response =
     Inr \<lparr> status = code, headers = hs, head_written = True, body = [], ended = False \<rparr>"
  by (simp add: writeHead_def new_response_def)

lemma res_end_open [simp]:
  "res_end chunk \<lparr> status = code, headers = hs, head_written = w, body = b, ended = False \<rparr> =
     \<lparr> status = code, headers = hs, head_written = True, body = b @ chunk, ended = True \<rparr>"
  by (simp add: res_end_def)

lemma receiver_rejects_malformed:
  assumes "req_method req = ''POST''"
    and "isOriginAllowed opts (js_or (origin_header req) (referer_header req))"
    and "JSON_parse (req_body req) = Some im"
    and "validateIm im = Inl err"
  shows "receiver opts JSON_parse g req new_response =
           (log_msg Err (FailedToParse err) g,
            \<lparr> status = 400, headers = json_headers, head_written = True,
              body = invalid_import_map_body, ended = True \<rparr>,
            None)"
  using assms by (simp add: receiver_def post_end_def post_try_def Let_def)

text \<open>
  C1. A parsed JSON value passes \<^verbatim>\<open>validateIm\<close> exactly when it is an object whose keys are
  \<^verbatim>\<open>imports\<close> and \<^verbatim>\<open>scopes\<close> and nothing else (an array, whose keys are its indices, never
  passes). When it does not pass, a POST from an allowed origin is answered with status 400
  and the body \<^verbatim>\<open>{"error":"Invalid import map data"}\<close>. The values under the two keys are
  not looked at: any two values pass.
\<close>

theorem C1_shape_validation:
  "distinct_keys im \<Longrightarrow>
     (validateIm im = Inr () \<longleftrightarrow>
        (\<exists>kvs. im = JObj kvs \<and> set (map fst kvs) = {''imports'', ''scopes''}))
     \<and> (validateIm im \<noteq> Inr () \<and> req_method req = ''POST''
          \<and> isOriginAllowed opts (js_or (origin_header req) (referer_header req))
          \<and> JSON_parse (req_body req) = Some im \<longrightarrow>
        (\<exists>err. validateIm im = Inl err
           \<and> receiver opts JSON_parse g req new_response =
               (log_msg Err (FailedToParse err) g,
                \<lparr> status = 400, headers = json_headers, head_written = True,
                  body = invalid_import_map_body, ended = True \<rparr>,
                None)))
     \<and> validateIm (JObj [(''imports'', a), (''scopes'', b)]) = Inr ()
     \<and> validateIm (JObj [(''scopes'', b), (''imports'', a)]) = Inr ()"
proof (intro conjI impI)
  assume "distinct_keys im"
  then show "validateIm im = Inr () \<longleftrightarrow>
        (\<exists>kvs. im = JObj kvs \<and> set (map fst kvs) = {''imports'', ''scopes''})"
    by (rule validateIm_accepts_iff)
next
  assume h: "validateIm im \<noteq> Inr () \<and> req_method req = ''POST''
          \<and> isOriginAllowed opts (js_or (origin_header req) (referer_header req))
          \<and> JSON_parse (req_body req) = Some im"
  then obtain err where e: "validateIm im = Inl err"
    by (cases "validateIm im") auto
  with h receiver_rejects_malformed [of req opts JSON_parse im err g]
  show "\<exists>err. validateIm im = Inl err
           \<and> receiver opts JSON_parse g req new_response =
               (log_msg Err (FailedToParse err) g,
                \<lparr> status = 400, headers = json_headers, head_written = True,
                  body = invalid_import_map_body, ended = True \<rparr>,
                None)"
    by blast
next
  have "distinct (map fst [(''imports'', a), (''scopes'', b)])" by simp
  from validateIm_JObj [OF this] show "validateIm (JObj [(''imports'', a), (''scopes'', b)]) = Inr ()"
    by simp
next
  have "distinct (map fst [(''scopes'', b), (''imports'', a)])" by simp
  from validateIm_JObj [OF this] show "validateIm (JObj [(''scopes'', b), (''imports'', a)]) = Inr ()"
    by auto
qed

lemma localhost_allowed: "isOriginAllowed default_options (Some ''http://localhost:5555'')"
  by (simp add: isOriginAllowed_def)



theorem C1_shape_validation_witness:
  "distinct_keys (JObj [(''imports'', JObj [])])
   \<and> validateIm (JObj [(''imports'', JObj [])]) \<noteq> Inr ()
   \<and> (\<exists>err. receiver default_options (\<lambda>text. Some (JObj [(''imports'', JObj [])])) initial_gateway
         (post_request (Some ''http://localhost:5555'') ''{\"imports\":{}}'') new_response =
         (log_msg Err (FailedToParse err) initial_gateway,
          \<lparr> status = 400, headers = json_headers, head_written = True,
            body = ''{\"error\":\"Invalid import map data\"}'', ended = True \<rparr>,
          None))"
proof -
  define im where "im = JObj [(''imports'', JObj [])]"
  define req where "req = post_request (Some ''http://localhost:5555'') ''{\"imports\":{}}''"
  have d: "distinct_keys im" by (simp add: distinct_keys_def im_def)
  note c1 = C1_shape_validation [OF d, of req default_options "\<lambda>text. Some im" initial_gateway JNull JNull]
  have "\<not> (\<exists>kvs. im = JObj kvs \<and> set (map fst kvs) = {''imports'', ''scopes''})"
    by (auto simp: im_def)
  with c1 have n: "validateIm im \<noteq> Inr ()" by simp
  have o: "isOriginAllowed default_options (js_or (origin_header req) (referer_header req))"
    using localhost_allowed by (simp add: req_def post_request_def js_or_def)
  have m: "req_method req = ''POST''" by (simp add: req_def post_request_def)
  from c1 n o m have "\<exists>err. validateIm im = Inl err
           \<and> receiver default_options (\<lambda>text. Some im) initial_gateway req new_response =
               (log_msg Err (FailedToParse err) initial_gateway,
                \<lparr> status = 400, headers = json_headers, head_written = True,
                  body = invalid_import_map_body, ended = True \<rparr>,
                None)"
    by simp
  then obtain err where "receiver default_options (\<lambda>text. Some im) initial_gateway req new_response =
               (log_msg Err (FailedToParse err) initial_gateway,
                \<lparr> status = 400, headers = json_headers, head_written = True,
                  body = invalid_import_map_body, ended = True \<rparr>,
                None)"
    by blast
  then have "\<exists>err. receiver default_options (\<lambda>text. Some im) initial_gateway req new_response =
               (log_msg Err (FailedToParse err) initial_gateway,
                \<lparr> status = 400, headers = json_headers, head_written = True,
                  body = invalid_import_map_body, ended = True \<rparr>,
                None)"
    by (rule exI)
  with d n show ?thesis
    unfolding im_def req_def invalid_import_map_body_def by - (intro conjI; assumption)
qed

section \<open>Properties of the receiver endpoint\<close>

lemma log_msg_fields [simp]:
  "importMap (log_msg lvl ev g) = importMap g"
  "signaled (log_msg lvl ev g) = signaled g"
  "logged (log_msg lvl ev g) = logged g @ [(lvl, ev)]"
  by (simp_all add: log_msg_def)

lemma log_import_entries_fields [simp]:
  "importMap (fst (log_import_entries kvs g)) = importMap g"
  "signaled (fst (log_import_entries kvs g)) = signaled g"
  by (induction kvs g rule: log_import_entries.induct) simp_all

lemma log_import_entries_throws:
  "snd (log_import_entries kvs g) =
     (if list_ex (\<lambda>kv. string_coercion_throws (snd kv)) kvs then Some TypeError else None)"
  by (induction kvs g rule: log_import_entries.induct) simp_all

lemma log_entries_fields [simp]:
  "importMap (fst (log_entries im g)) = importMap g"
  "signaled (fst (log_entries im g)) = signaled g"
  by (simp_all add: log_entries_def split: option.splits)

lemma log_entries_snd:
  "snd (log_entries im g) = (if logging_throws im then Some TypeError else None)"
  by (simp add: logging_throws_def log_entries_def log_import_entries_throws split: option.splits)

lemma receiver_origin_rejected:
  assumes "req_method req = ''POST''"
    and "\<not> isOriginAllowed opts (js_or (origin_header req) (referer_header req))"
  shows "receiver opts JSON_parse g req new_response =
           (log_msg Warn (RejectedOrigin (js_or (origin_header req) (referer_header req))) g,
            \<lparr> status = 403, headers = json_headers, head_written = True,
              body = origin_not_allowed_body, ended = True \<rparr>,
            None)"
  using assms by (simp add: receiver_def Let_def)

lemma receiver_parse_failure:
  assumes "req_method req = ''POST''"
    and "isOriginAllowed opts (js_or (origin_header req) (referer_header req))"
    and "JSON_parse (req_body req) = None"
  shows "receiver opts JSON_parse g req new_response =
           (log_msg Err (FailedToParse SyntaxError) g,
            \<lparr> status = 400, headers = json_headers, head_written = True,
              body = invalid_import_map_body, ended = True \<rparr>,
            None)"
  using assms by (simp add: receiver_def post_end_def post_try_def Let_def)

lemma receiver_success:
  assumes "req_method req = ''POST''"
    and "isOriginAllowed opts (js_or (origin_header req) (referer_header req))"
    and "JSON_parse (req_body req) = Some im"
    and "validateIm im = Inr ()"
    and "\<not> logging_throws im"
  shows "\<exists>g'. receiver opts JSON_parse g req new_response =
           (g',
            \<lparr> status = 200, headers = json_headers @ cors_headers, head_written = True,
              body = success_body (key_count (own_property im ''imports'')), ended = True \<rparr>,
            None)
         \<and> importMap g' = im \<and> signaled g' = True"
proof -
  define g2 where "g2 = log_msg Info (ReceivedImportMap (js_or (origin_header req) (referer_header req))
      (key_count (own_property im ''imports'')) (key_count (own_property im ''scopes'')))
      (g\<lparr> importMap := im \<rparr>)"
  obtain g3 e where l: "log_entries im g2 = (g3, e)"
    by (cases "log_entries im g2") auto
  from log_entries_snd [of im g2] l assms(5) have e: "e = None" by simp
  from l have "g3 = fst (log_entries im g2)" by simp
  then have f: "importMap g3 = im" "signaled g3 = signaled g"
    by (simp_all add: g2_def)
  show ?thesis
    using assms(1-4) l e f
    by (simp add: receiver_def post_end_def post_try_def Let_def g2_def)
qed

text \<open>
  A value that passes the validation and whose entries cannot all be logged is stored, the
  gate is not signaled, and the answer is the 400 of the \<^verbatim>\<open>catch\<close> block.
\<close>

lemma receiver_logging_throws:
  assumes "req_method req = ''POST''"
    and "isOriginAllowed opts (js_or (origin_header req) (referer_header req))"
    and "JSON_parse (req_body req) = Some im"
    and "validateIm im = Inr ()"
    and "logging_throws im"
  shows "\<exists>g'. receiver opts JSON_parse g req new_response =
           (g',
            \<lparr> status = 400, headers = json_headers, head_written = True,
              body = invalid_import_map_body, ended = True \<rparr>,
            None)
         \<and> importMap g' = im \<and> signaled g' = signaled g"
proof -
  define g2 where "g2 = log_msg Info (ReceivedImportMap (js_or (origin_header req) (referer_header req))
      (key_count (own_property im ''imports'')) (key_count (own_property im ''scopes'')))
      (g\<lparr> importMap := im \<rparr>)"
  obtain g3 e where l: "log_entries im g2 = (g3, e)"
    by (cases "log_entries im g2") auto
  from log_entries_snd [of im g2] l assms(5) have e: "e = Some TypeError" by simp
  from l have "g3 = fst (log_entries im g2)" by simp
  then have f: "importMap g3 = im" "signaled g3 = signaled g"
    by (simp_all add: g2_def)
  show ?thesis
    using assms(1-4) l e f
    by (simp add: receiver_def post_end_def post_try_def Let_def g2_def)
qed

text \<open>
  A POST that is rejected for its origin (403), whose body does not parse (400) or whose
  value fails the shape validation (400) leaves \<^verbatim>\<open>importMap\<close> and the gate as they were.
  A POST that passes all three stores the received value as it is: when \<^verbatim>\<open>importMap\<close> has
  changed, the new mapping is the whole parsed body. The gate is signaled and the answer is
  200 only if, in addition, every entry could be logged.
\<close>

lemma post_leaves_or_replaces_state:
  assumes m: "req_method req = ''POST''"
    and r: "receiver opts JSON_parse g req new_response = (g', res', escaped)"
  shows "(\<not> isOriginAllowed opts (js_or (origin_header req) (referer_header req)) \<longrightarrow>
            status res' = 403 \<and> body res' = origin_not_allowed_body
            \<and> importMap g' = importMap g \<and> signaled g' = signaled g)
       \<and> (isOriginAllowed opts (js_or (origin_header req) (referer_header req))
            \<and> JSON_parse (req_body req) = None \<longrightarrow>
            status res' = 400 \<and> body res' = invalid_import_map_body
            \<and> importMap g' = importMap g \<and> signaled g' = signaled g)
       \<and> (\<forall>im. isOriginAllowed opts (js_or (origin_header req) (referer_header req))
            \<and> JSON_parse (req_body req) = Some im \<and> validateIm im \<noteq> Inr () \<longrightarrow>
            status res' = 400 \<and> body res' = invalid_import_map_body
            \<and> importMap g' = importMap g \<and> signaled g' = signaled g)
       \<and> (\<forall>im. isOriginAllowed opts (js_or (origin_header req) (referer_header req))
            \<and> JSON_parse (req_body req) = Some im \<and> validateIm im = Inr () \<longrightarrow>
            importMap g' = im
            \<and> (if logging_throws im
               then status res' = 400 \<and> body res' = invalid_import_map_body
                    \<and> signaled g' = signaled g
               else status res' = 200 \<and> signaled g' = True))
       \<and> (importMap g' \<noteq> importMap g \<longrightarrow> JSON_parse (req_body req) = Some (importMap g'))
       \<and> escaped = None \<and> ended res'"
proof -
  let ?origin = "js_or (origin_header req) (referer_header req)"
  show ?thesis
  proof (cases "isOriginAllowed opts ?origin")
    case False
    from receiver_origin_rejected [of req opts JSON_parse g] m r False show ?thesis
      by auto
  next
    case allowed: True
    show ?thesis
    proof (cases "JSON_parse (req_body req)")
      case None
      from receiver_parse_failure [of req opts JSON_parse g] m r allowed None show ?thesis
        by auto
    next
      case (Some im)
      show ?thesis
      proof (cases "validateIm im")
        case (Inl err)
        from receiver_rejects_malformed [of req opts JSON_parse im err g] m r allowed Some Inl
        show ?thesis by auto
      next
        case (Inr u)
        then have v: "validateIm im = Inr ()" by simp
        show ?thesis
        proof (cases "logging_throws im")
          case True
          from receiver_logging_throws [of req opts JSON_parse im g] m r allowed Some v True
          show ?thesis by auto
        next
          case False
          from receiver_success [of req opts JSON_parse im g] m r allowed Some v False
          show ?thesis by auto
        qed
      qed
    qed
  qed
qed

text \<open>
  A POST from \<^verbatim>\<open>http://localhost:5555\<close> with one import and no scope is answered with 200
  and \<^verbatim>\<open>{"success":true,"imports":1}\<close>; the mapping is stored and the gate is signaled.
\<close>

lemma own_property_order_single:
  "\<not> is_array_index k \<Longrightarrow> own_property_order [(k, v)] = [(k, v)]"
  by (simp add: own_property_order_def)

lemma at_x_not_index: "\<not> is_array_index ''@x''"
  by (simp add: is_array_index_def is_digit_def)

lemma success_example:
  "receiver default_options
     (\<lambda>text. Some (JObj [(''imports'', JObj [(''@x'', JStr ''http://localhost:4101/x.js'')]),
                           (''scopes'', JObj [])]))
     initial_gateway
     (post_request (Some ''http://localhost:5555'')
        ''{\"imports\":{\"@x\":\"http://localhost:4101/x.js\"},\"scopes\":{}}'')
     new_response
   = (\<lparr> importMap = JObj [(''imports'', JObj [(''@x'', JStr ''http://localhost:4101/x.js'')]),
                           (''scopes'', JObj [])],
        signaled = True,
        logged = [(Info, ReceivedImportMap (Some ''http://localhost:5555'') 1 0),
                  (Info, ImportEntry ''@x'' (JStr ''http://localhost:4101/x.js''))] \<rparr>,
      \<lparr> status = 200, headers = json_headers @ cors_headers, head_written = True,
        body = ''{\"success\":true,\"imports\":1}'', ended = True \<rparr>,
      None)"
proof -
  have v: "validateIm (JObj [(''imports'', JObj [(''@x'', JStr ''http://localhost:4101/x.js'')]),
                              (''scopes'', JObj [])]) = Inr ()"
    using validateIm_JObj [of "[(''imports'', JObj [(''@x'', JStr ''http://localhost:4101/x.js'')]),
                              (''scopes'', JObj [])]"]
    by simp
  have o: "isOriginAllowed default_options (Some ''http://localhost:5555'')"
    by (rule localhost_allowed)
  note k = own_property_order_single [OF at_x_not_index]
  have e: "own_property_order ([] :: (string \<times> json) list) = []"
    by (simp add: own_property_order_def)
  show ?thesis
    using v o
    by (simp add: receiver_def post_end_def post_try_def post_request_def js_or_def Let_def
        key_count_def Object_keys_def k e log_entries_def log_msg_def initial_gateway_def
        success_body_def decimal_1 [simplified])
qed

lemma toString_body_passes_validation:
  "validateIm (JObj [(''imports'', JObj [(''@x'', JObj [(''toString'', JNull)])]),
                     (''scopes'', JObj [])]) = Inr ()"
  using validateIm_JObj [of "[(''imports'', JObj [(''@x'', JObj [(''toString'', JNull)])]),
                              (''scopes'', JObj [])]"]
  by simp

text \<open>
  C5. The three failures that the claim lists leave the stored mapping and the gate alone
  (\<open>post_leaves_or_replaces_state\<close>), and the mapping is only ever replaced by the whole
  parsed body. But it is not replaced on a successful POST only. The body
  \<^verbatim>\<open>{"imports":{"@x":{"toString":null}},"scopes":{}}\<close>, posted from
  \<^verbatim>\<open>http://localhost:5555\<close>, passes the shape validation and is assigned to \<^verbatim>\<open>importMap\<close>;
  then \<^verbatim>\<open>fmt.url(value)\<close> throws a \<^verbatim>\<open>TypeError\<close> inside the \<^verbatim>\<open>try\<close> block while the entry is
  being logged. The \<^verbatim>\<open>catch\<close> block answers 400 with
  \<^verbatim>\<open>{"error":"Invalid import map data"}\<close>: the POST has failed, the gate is not signaled,
  and yet the stored mapping is the posted one.
\<close>

theorem C5_failed_post_replaces_mapping:
  "receiver default_options
     (\<lambda>text. Some (JObj [(''imports'', JObj [(''@x'', JObj [(''toString'', JNull)])]),
                           (''scopes'', JObj [])]))
     initial_gateway
     (post_request (Some ''http://localhost:5555'')
        ''{\"imports\":{\"@x\":{\"toString\":null}},\"scopes\":{}}'')
     new_response
   = (\<lparr> importMap = JObj [(''imports'', JObj [(''@x'', JObj [(''toString'', JNull)])]),
                           (''scopes'', JObj [])],
        signaled = False,
        logged = [(Info, ReceivedImportMap (Some ''http://localhost:5555'') 1 0),
                  (Err, FailedToParse TypeError)] \<rparr>,
      \<lparr> status = 400, headers = json_headers, head_written = True,
        body = ''{\"error\":\"Invalid import map data\"}'', ended = True \<rparr>,
      None)
   \<and> importMap initial_gateway = JObj [(''imports'', JObj [])]"
proof -
  have v: "validateIm (JObj [(''imports'', JObj [(''@x'', JObj [(''toString'', JNull)])]),
                              (''scopes'', JObj [])]) = Inr ()"
    by (rule toString_body_passes_validation)
  have o: "isOriginAllowed default_options (Some ''http://localhost:5555'')"
    by (rule localhost_allowed)
  note k = own_property_order_single [OF at_x_not_index]
  have e: "own_property_order ([] :: (string \<times> json) list) = []"
    by (simp add: own_property_order_def)
  have r: "receiver default_options
       (\<lambda>text. Some (JObj [(''imports'', JObj [(''@x'', JObj [(''toString'', JNull)])]),
                             (''scopes'', JObj [])]))
       initial_gateway
       (post_request (Some ''http://localhost:5555'')
          ''{\"imports\":{\"@x\":{\"toString\":null}},\"scopes\":{}}'')
       new_response
     = (\<lparr> importMap = JObj [(''imports'', JObj [(''@x'', JObj [(''toString'', JNull)])]),
                             (''scopes'', JObj [])],
          signaled = False,
          logged = [(Info, ReceivedImportMap (Some ''http://localhost:5555'') 1 0),
                    (Err, FailedToParse TypeError)] \<rparr>,
        \<lparr> status = 400, headers = json_headers, head_written = True,
          body = ''{\"error\":\"Invalid import map data\"}'', ended = True \<rparr>,
        None)"
    using v o
    by (simp add: receiver_def post_end_def post_try_def post_request_def js_or_def Let_def
        key_count_def Object_keys_def k e log_entries_def log_msg_def initial_gateway_def
        invalid_import_map_body_def)
  have i: "importMap initial_gateway = JObj [(''imports'', JObj [])]"
    by (simp add: initial_gateway_def)
  from r i show ?thesis by - (intro conjI; assumption)
qed

section \<open>Properties of the blocking middleware, the resolveId hook and the sender endpoint\<close>

text \<open>
  C3. When the filter has decided to block a request and the wait on the gate times out or
  throws, the middleware logs two warnings, leaves the response object and the gateway
  variables untouched, and calls \<^verbatim>\<open>next()\<close>; whatever the wait yields, \<^verbatim>\<open>next()\<close> is called.
\<close>

theorem C3_gate_timeout_fails_open:
  "shouldBlockJavaScriptRequest opts config (signaled g) req \<Longrightarrow>
   waited = Resolved ''timed-out'' \<or> waited = Rejected e \<Longrightarrow>
     blocking_middleware opts config waited g req res =
       (g\<lparr> logged := logged g @
            [(Warn, BlockingRequest (req_url req)),
             (Warn, case waited of
                      Resolved r \<Rightarrow> TimeoutWaiting (req_url req)
                    | Rejected x \<Rightarrow> ErrorWaiting (req_url req) x)] \<rparr>,
        res, True)
     \<and> snd (snd (blocking_middleware opts config any_outcome g req res)) = True"
  by (auto simp: blocking_middleware_def log_msg_def Let_def split: wait_outcome.splits)

theorem C3_gate_timeout_fails_open_witness:
  "shouldBlockJavaScriptRequest default_options \<lparr>base = ''/'', command = Serve\<rparr>
      (signaled initial_gateway) (get_request ''/src/main.ts'')
   \<and> blocking_middleware default_options \<lparr>base = ''/'', command = Serve\<rparr>
        (Resolved ''timed-out'') initial_gateway (get_request ''/src/main.ts'') new_response =
       (initial_gateway\<lparr> logged :=
            [(Warn, BlockingRequest ''/src/main.ts''), (Warn, TimeoutWaiting ''/src/main.ts'')] \<rparr>,
        new_response, True)"
proof -
  have b: "shouldBlockJavaScriptRequest default_options \<lparr>base = ''/'', command = Serve\<rparr>
      (signaled initial_gateway) (get_request ''/src/main.ts'')"
    by (simp add: shouldBlock_iff stockPathExceptions_default get_request_def initial_gateway_def)
  from C3_gate_timeout_fails_open [OF b, of "Resolved ''timed-out''" undefined new_response]
  have "blocking_middleware default_options \<lparr>base = ''/'', command = Serve\<rparr>
        (Resolved ''timed-out'') initial_gateway (get_request ''/src/main.ts'') new_response =
       (initial_gateway\<lparr> logged := logged initial_gateway @
            [(Warn, BlockingRequest (req_url (get_request ''/src/main.ts''))),
             (Warn, TimeoutWaiting (req_url (get_request ''/src/main.ts'')))] \<rparr>,
        new_response, True)"
    by simp
  then have "blocking_middleware default_options \<lparr>base = ''/'', command = Serve\<rparr>
        (Resolved ''timed-out'') initial_gateway (get_request ''/src/main.ts'') new_response =
       (initial_gateway\<lparr> logged :=
            [(Warn, BlockingRequest ''/src/main.ts''), (Warn, TimeoutWaiting ''/src/main.ts'')] \<rparr>,
        new_response, True)"
    by (simp add: get_request_def initial_gateway_def)
  with b show ?thesis by (rule conjI)
qed

lemma resolveId_external:
  "isBareIdentifier opts ident \<Longrightarrow>
     \<exists>target. fst (resolveId opts im ext ident) = Some \<lparr> rid = target, external = True \<rparr>"
  by (simp add: resolveId_def Let_def)

lemma resolveId_unresolved:
  "isBareIdentifier opts ident \<Longrightarrow> \<not> is_truthy (resolveFromImportMap im ident) \<Longrightarrow>
     fst (resolveId opts im ext ident) = Some \<lparr> rid = Str ident, external = True \<rparr>"
  by (simp add: resolveId_def Let_def)

lemma resolveId_resolved:
  "isBareIdentifier opts ident \<Longrightarrow> is_truthy (resolveFromImportMap im ident) \<Longrightarrow>
     fst (resolveId opts im ext ident) =
       Some \<lparr> rid = resolveFromImportMap im ident, external = True \<rparr>"
  by (simp add: resolveId_def Let_def)

text \<open>
  C7. The hook marks every bare identifier external, also when the import map has no entry
  for it. When the import map resolves the identifier, the \<^verbatim>\<open>id\<close> of the result is the
  resolved URL (\<^verbatim>\<open>resolved || id\<close>), not the bare identifier: with
  \<^verbatim>\<open>imports = {"@a/b": "cd"}\<close> the hook returns \<^verbatim>\<open>{ id: "cd", external: true }\<close> for
  \<^verbatim>\<open>@a/b\<close>.
\<close>

theorem C7_resolveId_returns_resolved_url:
  "resolveId default_options \<lparr> im_imports = Some [(''@a/b'', ''cd'')], im_scopes = Some [] \<rparr> {} ''@a/b''
     = (Some \<lparr> rid = Str ''cd'', external = True \<rparr>, {Str ''cd''})"
  by (simp add: resolveId_def resolveFromImportMap_def get_member_def default_options_def
      startsWith_def Let_def)

lemma writeHead_written:
  "writeHead code hs \<lparr> status = c, headers = h, head_written = True, body = b, ended = f \<rparr>
     = Inl ERR_HTTP_HEADERS_SENT"
  by (simp add: writeHead_def)

lemma sender_script_served:
  "sender_script_middleware opts config (Some senderScript) g new_response =
     (g,
      \<lparr> status = 200,
        headers = [(''Content-Type'', ''application/javascript''),
                   (''Access-Control-Allow-Origin'', ''*'')],
        head_written = True,
        body = replace_final_call senderScript
                 (sender_replacement (isRoot opts) (joinPaths config [importMapEndpoint opts])),
        ended = True \<rparr>,
      None)"
  by (simp add: sender_script_middleware_def)

lemma replace_final_call_example:
  "replace_final_call ''(function (a, b) {})();'' (sender_replacement True ''/app/__current_import_map'')
     = ''(function (a, b) {})(true, '' @ [CHR 0x27] @ ''/app/__current_import_map'' @ [CHR 0x27] @ '');''"
  by (simp add: replace_final_call_def sender_replacement_def endsWith_def)

text \<open>
  C9. The handler writes the head with status 200 before it reads the file. When the read
  fails, the \<^verbatim>\<open>catch\<close> block calls \<^verbatim>\<open>writeHead(500, ...)\<close> on a response whose head is
  already stored: that call throws, the exception leaves the handler, and the response still
  carries status 200, the JavaScript content type and no body.
\<close>

theorem C9_read_failure_keeps_status_200:
  "sender_script_middleware opts config None g new_response =
     (log_msg Err (FailedToReadSenderScript ReadFileFailed) g,
      \<lparr> status = 200,
        headers = [(''Content-Type'', ''application/javascript''),
                   (''Access-Control-Allow-Origin'', ''*'')],
        head_written = True, body = [], ended = False \<rparr>,
      Some ERR_HTTP_HEADERS_SENT)"
  by (simp add: sender_script_middleware_def writeHead_written Let_def)

section \<open>Exact matching in the admission filter\<close>

lemma includes_str_iff_sublist: "includes_str s sub \<longleftrightarrow> sublist sub s"
  by (induction s) (simp_all add: sublist_Cons_right)

lemma joinPaths_single:
  "joinPaths config [p] =
     (let b = strip_trailing_slashes (trim (base config)); x = strip_slashes (trim p)
      in if b = [] then x else if x = [] then b else b @ ''/'' @ x)"
  by (simp add: joinPaths_def Let_def)

lemma stripped_index_html: "strip_slashes (trim ''/index.html'') = ''index.html''"
  by (simp add: strip_slashes_def strip_trailing_slashes_def trim_def is_white_space_def)

lemma stripped_root: "strip_slashes (trim ''/'') = []"
  by (simp add: strip_slashes_def strip_trailing_slashes_def trim_def is_white_space_def)

lemma stripped_client: "strip_slashes (trim ''/@vite/client'') = ''@vite/client''"
  by (simp add: strip_slashes_def strip_trailing_slashes_def trim_def is_white_space_def)

lemma stockPathExceptions_app:
  "stockPathExceptions default_options \<lparr>base = ''/app/'', command = Serve\<rparr> =
     [''/app/index.html'', ''/app'', ''/app/@vite/client'',
      ''/app/__collagejs-import-map-sender.js'']"
  by (simp add: stockPathExceptions_def joinPaths_def default_options_def trim_def
      strip_slashes_def strip_trailing_slashes_def is_white_space_def)

lemma index_html_query_not_excepted:
  assumes "\<not> startsWith (strip_slashes (trim (importMapSenderEndpoint opts))) ''index.html?''"
  shows "joinPaths config [''/index.html''] @ CHR ''?'' # query
           \<notin> set (stockPathExceptions opts config)"
proof -
  define b where "b = strip_trailing_slashes (trim (base config))"
  define x where "x = strip_slashes (trim (importMapSenderEndpoint opts))"
  from assms have nx: "\<not> prefix ''index.html?'' x" by (simp add: startsWith_def x_def)
  show ?thesis
  proof (cases "b = []")
    case True
    with nx show ?thesis
      by (auto simp: stockPathExceptions_def joinPaths_single stripped_index_html stripped_root
          stripped_client Let_def b_def [symmetric] x_def [symmetric] prefix_def)
  next
    case False
    with nx show ?thesis
      by (auto simp: stockPathExceptions_def joinPaths_single stripped_index_html stripped_root
          stripped_client Let_def b_def [symmetric] x_def [symmetric] prefix_def)
  qed
qed

text \<open>
  C10. The filter compares the request URL with the entries of the exception list by
  equality. The claim that every excepted path followed by a suffix is blocked fails where
  the result is another entry: under the base \<^verbatim>\<open>/app/\<close> the document-root entry is
  \<^verbatim>\<open>/app\<close>, and \<^verbatim>\<open>/app\<close> followed by \<^verbatim>\<open>/index.html\<close> is the index entry, which passes.
\<close>

theorem C10_suffix_counterexample:
  "''/app'' \<in> set (stockPathExceptions default_options \<lparr>base = ''/app/'', command = Serve\<rparr>)
   \<and> command \<lparr>base = ''/app/'', command = Serve\<rparr> = Serve
   \<and> req_method (get_request (''/app'' @ ''/index.html'')) = ''GET''
   \<and> req_url (get_request (''/app'' @ ''/index.html'')) = ''/app'' @ ''/index.html''
   \<and> \<not> shouldBlockJavaScriptRequest default_options \<lparr>base = ''/app/'', command = Serve\<rparr> False
         (get_request (''/app'' @ ''/index.html''))"
  by (simp add: shouldBlock_iff stockPathExceptions_app get_request_def)

text \<open>
  C10, amended. In serve mode, for a GET while the gate is unsignaled, an excepted path
  followed by a suffix is blocked exactly when the resulting URL is not itself an entry of
  the exception list. In particular the index entry followed by a query string is blocked
  under every base, unless the configured sender path itself starts with
  \<^verbatim>\<open>index.html?\<close>.
\<close>

theorem C10_exact_match_only:
  "command config = Serve \<Longrightarrow> req_method req = ''GET'' \<Longrightarrow>
   e \<in> set (stockPathExceptions opts config) \<Longrightarrow> req_url req = e @ extra \<Longrightarrow>
     (shouldBlockJavaScriptRequest opts config False req \<longleftrightarrow>
        e @ extra \<notin> set (stockPathExceptions opts config))
     \<and> (e = joinPaths config [''/index.html''] \<and> extra \<noteq> [] \<and> hd extra = CHR ''?''
          \<and> \<not> startsWith (strip_slashes (trim (importMapSenderEndpoint opts))) ''index.html?''
        \<longrightarrow> shouldBlockJavaScriptRequest opts config False req)"
proof -
  assume c: "command config = Serve" and m: "req_method req = ''GET''"
    and e: "e \<in> set (stockPathExceptions opts config)" and u: "req_url req = e @ extra"
  have iff: "shouldBlockJavaScriptRequest opts config False req \<longleftrightarrow>
        e @ extra \<notin> set (stockPathExceptions opts config)"
    using c m u by (simp add: shouldBlock_iff)
  have "shouldBlockJavaScriptRequest opts config False req"
    if h: "e = joinPaths config [''/index.html''] \<and> extra \<noteq> [] \<and> hd extra = CHR ''?''
          \<and> \<not> startsWith (strip_slashes (trim (importMapSenderEndpoint opts))) ''index.html?''"
  proof -
    from h obtain query where s: "extra = CHR ''?'' # query" by (cases extra) auto
    from h have "joinPaths config [''/index.html''] @ CHR ''?'' # query
           \<notin> set (stockPathExceptions opts config)"
      by (intro index_html_query_not_excepted) simp
    with h s iff show ?thesis by simp
  qed
  with iff show ?thesis by blast
qed

theorem C10_exact_match_only_witness:
  "command \<lparr>base = ''/app/'', command = Serve\<rparr> = Serve
   \<and> req_method (get_request ''/app/index.html?v=1'') = ''GET''
   \<and> ''/app/index.html''
        \<in> set (stockPathExceptions default_options \<lparr>base = ''/app/'', command = Serve\<rparr>)
   \<and> req_url (get_request ''/app/index.html?v=1'') = ''/app/index.html'' @ ''?v=1''
   \<and> shouldBlockJavaScriptRequest default_options \<lparr>base = ''/app/'', command = Serve\<rparr> False
        (get_request ''/app/index.html?v=1'')"
proof -
  have c: "command \<lparr>base = ''/app/'', command = Serve\<rparr> = Serve" by simp
  have m: "req_method (get_request ''/app/index.html?v=1'') = ''GET''"
    by (simp add: get_request_def)
  have e: "''/app/index.html''
        \<in> set (stockPathExceptions default_options \<lparr>base = ''/app/'', command = Serve\<rparr>)"
    by (simp add: stockPathExceptions_app)
  have u: "req_url (get_request ''/app/index.html?v=1'') = ''/app/index.html'' @ ''?v=1''"
    by (simp add: get_request_def)
  have n: "''/app/index.html'' @ ''?v=1''
        \<notin> set (stockPathExceptions default_options \<lparr>base = ''/app/'', command = Serve\<rparr>)"
    by (simp add: stockPathExceptions_app)
  from C10_exact_match_only [OF c m e u] n
  have "shouldBlockJavaScriptRequest default_options \<lparr>base = ''/app/'', command = Serve\<rparr> False
        (get_request ''/app/index.html?v=1'')"
    by blast
  with c m e u show ?thesis by blast
qed

lemma index_html_query_blocked_default:
  "shouldBlockJavaScriptRequest default_options \<lparr>base = ''/'', command = Serve\<rparr> False
     (get_request ''/index.html?v=1'')"
  by (simp add: shouldBlock_iff stockPathExceptions_default get_request_def)

section \<open>The origin check\<close>

lemma receiver_status_403_iff:
  assumes "req_method req = ''POST''"
    and "receiver opts JSON_parse g req new_response = (g', res', escaped)"
  shows "status res' = 403 \<and> body res' = origin_not_allowed_body
         \<longleftrightarrow> \<not> isOriginAllowed opts (js_or (origin_header req) (referer_header req))"
proof (cases "isOriginAllowed opts (js_or (origin_header req) (referer_header req))")
  case False
  with receiver_origin_rejected [of req opts JSON_parse g] assms show ?thesis by auto
next
  case allowed: True
  have "status res' \<noteq> 403"
  proof (cases "JSON_parse (req_body req)")
    case None
    with receiver_parse_failure [of req opts JSON_parse g] assms allowed show ?thesis by auto
  next
    case (Some im)
    show ?thesis
    proof (cases "validateIm im")
      case (Inl err)
      with receiver_rejects_malformed [of req opts JSON_parse im err g] assms allowed Some
      show ?thesis by auto
    next
      case (Inr u)
      then have v: "validateIm im = Inr ()" by simp
      show ?thesis
      proof (cases "logging_throws im")
        case True
        with receiver_logging_throws [of req opts JSON_parse im g] assms allowed Some v
        show ?thesis by auto
      next
        case False
        with receiver_success [of req opts JSON_parse im g] assms allowed Some v
        show ?thesis by auto
      qed
    qed
  qed
  with allowed show ?thesis by simp
qed

lemma isOriginAllowed_iff:
  "isOriginAllowed opts origin \<longleftrightarrow>
     (\<exists>orig. origin = Some orig \<and> orig \<noteq> [] \<and>
        (sublist ''localhost'' orig \<or> sublist ''127.0.0.1'' orig \<or> sublist ''[::1]'' orig
         \<or> (\<exists>allowed \<in> set (allowedOrigins opts). sublist allowed orig)))"
  by (cases origin)
     (auto simp: isOriginAllowed_def includes_str_iff_sublist list_ex_iff simp del: sublist_code)

text \<open>
  What the code computes: a POST is answered with status 403 and the body
  \<^verbatim>\<open>{"error":"Origin not allowed"}\<close> exactly when the origin (the \<^verbatim>\<open>Origin\<close> header, or the
  \<^verbatim>\<open>Referer\<close> header when that one is absent or empty) is absent or empty, or contains none of
  the texts \<^verbatim>\<open>localhost\<close>, \<^verbatim>\<open>127.0.0.1\<close>, \<^verbatim>\<open>[::1]\<close> and no entry of the allow-list anywhere
  in it. The test looks at the text of the origin, not at its host.
\<close>

lemma origin_rejected_iff:
  assumes "req_method req = ''POST''"
    and "receiver opts JSON_parse g req new_response = (g', res', escaped)"
  shows "(status res' = 403 \<and> body res' = origin_not_allowed_body)
     \<longleftrightarrow>
     (case js_or (origin_header req) (referer_header req) of
        None \<Rightarrow> True
      | Some orig \<Rightarrow>
          orig = [] \<or>
          (\<not> sublist ''localhost'' orig \<and> \<not> sublist ''127.0.0.1'' orig
           \<and> \<not> sublist ''[::1]'' orig
           \<and> \<not> (\<exists>allowed \<in> set (allowedOrigins opts). sublist allowed orig)))"
  using receiver_status_403_iff [OF assms]
  by (cases "js_or (origin_header req) (referer_header req)")
     (auto simp: isOriginAllowed_iff simp del: sublist_code)

lemma evil_origin_rejected:
  "receiver default_options (\<lambda>text. None) initial_gateway
     (post_request (Some ''http://evil.example'') []) new_response
   = (log_msg Warn (RejectedOrigin (Some ''http://evil.example'')) initial_gateway,
      \<lparr> status = 403, headers = json_headers, head_written = True,
        body = ''{\"error\":\"Origin not allowed\"}'', ended = True \<rparr>,
      None)"
proof -
  define req where "req = post_request (Some ''http://evil.example'') []"
  have m: "req_method req = ''POST''" by (simp add: req_def post_request_def)
  have o: "js_or (origin_header req) (referer_header req) = Some ''http://evil.example''"
    by (simp add: req_def post_request_def js_or_def)
  have n: "\<not> isOriginAllowed default_options (Some ''http://evil.example'')"
    by (simp add: isOriginAllowed_def default_options_def)
  from receiver_origin_rejected [of req default_options "\<lambda>text. None" initial_gateway] m o n
  show ?thesis
    by (simp add: req_def origin_not_allowed_body_def)
qed

text \<open>
  C4. The claim admits only loopback origins and the entries of the allow-list, as does the
  documentation of the option \<^verbatim>\<open>allowedOrigins\<close> (its default ``allows only \<^verbatim>\<open>localhost\<close>
  origins'') and as does \<^verbatim>\<open>getLocalhostOrigins\<close> of the sender script, which compares the
  host name of the URL with \<^verbatim>\<open>localhost\<close> and \<^verbatim>\<open>127.0.0.1\<close>. The receiver does not: the
  origin \<^verbatim>\<open>http://localhost.evil.example\<close> is no loopback address and, under the default
  options, the allow-list is empty, yet a POST from it is not answered with 403. With a
  well-formed body it is answered with 200, replaces the stored mapping and signals the
  gate, because the text \<^verbatim>\<open>localhost\<close> occurs in the origin.
\<close>

theorem C4_non_loopback_origin_accepted:
  "\<not> spec_is_loopback_origin ''http://localhost.evil.example''
   \<and> allowedOrigins default_options = []
   \<and> receiver default_options
       (\<lambda>text. Some (JObj [(''imports'', JObj [(''@x'', JStr ''http://evil.example/x.js'')]),
                             (''scopes'', JObj [])]))
       initial_gateway
       (post_request (Some ''http://localhost.evil.example'')
          ''{\"imports\":{\"@x\":\"http://evil.example/x.js\"},\"scopes\":{}}'')
       new_response
     = (\<lparr> importMap = JObj [(''imports'', JObj [(''@x'', JStr ''http://evil.example/x.js'')]),
                             (''scopes'', JObj [])],
          signaled = True,
          logged = [(Info, ReceivedImportMap (Some ''http://localhost.evil.example'') 1 0),
                    (Info, ImportEntry ''@x'' (JStr ''http://evil.example/x.js''))] \<rparr>,
        \<lparr> status = 200, headers = json_headers @ cors_headers, head_written = True,
          body = ''{\"success\":true,\"imports\":1}'', ended = True \<rparr>,
        None)"
proof -
  have v: "validateIm (JObj [(''imports'', JObj [(''@x'', JStr ''http://evil.example/x.js'')]),
                              (''scopes'', JObj [])]) = Inr ()"
    using validateIm_JObj [of "[(''imports'', JObj [(''@x'', JStr ''http://evil.example/x.js'')]),
                              (''scopes'', JObj [])]"]
    by simp
  have o: "isOriginAllowed default_options (Some ''http://localhost.evil.example'')"
    by (simp add: isOriginAllowed_def)
  note k = own_property_order_single [OF at_x_not_index]
  have e: "own_property_order ([] :: (string \<times> json) list) = []"
    by (simp add: own_property_order_def)
  have r: "receiver default_options
       (\<lambda>text. Some (JObj [(''imports'', JObj [(''@x'', JStr ''http://evil.example/x.js'')]),
                             (''scopes'', JObj [])]))
       initial_gateway
       (post_request (Some ''http://localhost.evil.example'')
          ''{\"imports\":{\"@x\":\"http://evil.example/x.js\"},\"scopes\":{}}'')
       new_response
     = (\<lparr> importMap = JObj [(''imports'', JObj [(''@x'', JStr ''http://evil.example/x.js'')]),
                             (''scopes'', JObj [])],
          signaled = True,
          logged = [(Info, ReceivedImportMap (Some ''http://localhost.evil.example'') 1 0),
                    (Info, ImportEntry ''@x'' (JStr ''http://evil.example/x.js''))] \<rparr>,
        \<lparr> status = 200, headers = json_headers @ cors_headers, head_written = True,
          body = ''{\"success\":true,\"imports\":1}'', ended = True \<rparr>,
        None)"
    using v o
    by (simp add: receiver_def post_end_def post_try_def post_request_def js_or_def Let_def
        key_count_def Object_keys_def k e log_entries_def log_msg_def initial_gateway_def
        success_body_def decimal_1 [simplified])
  have l: "\<not> spec_is_loopback_origin ''http://localhost.evil.example''"
    by (simp add: spec_is_loopback_origin_def spec_host_def spec_authority_def is_digit_def)
  have a: "allowedOrigins default_options = []"
    by (simp add: default_options_def)
  from l a r show ?thesis by - (intro conjI; assumption)
qed

section \<open>Properties of the identifier resolver\<close>

lemma slash_not_digit: "\<not> is_digit CHR ''/''"
  by (simp add: is_digit_def)

lemma array_index_no_slash: "is_array_index k \<Longrightarrow> \<not> endsWith k ''/''"
proof
  assume a: "is_array_index k" and e: "endsWith k ''/''"
  from e obtain r where "rev k = CHR ''/'' # r"
    by (auto simp: endsWith_def prefix_def)
  then have "CHR ''/'' \<in> set (rev k)" by simp
  then have "CHR ''/'' \<in> set k" by simp
  with a have "is_digit CHR ''/''" by (auto simp: is_array_index_def list_all_iff)
  with slash_not_digit show False by simp
qed

lemma prefix_mapping_find:
  "prefix_mapping kvs ident =
     (case find (\<lambda>kv. endsWith (fst kv) ''/'' \<and> startsWith ident (fst kv)) kvs of
        Some kv \<Rightarrow> Str (snd kv @ drop (length (fst kv)) ident)
      | None \<Rightarrow> Null)"
  by (induction kvs ident rule: prefix_mapping.induct) simp_all

lemma find_append_none:
  "(\<And>x. x \<in> set xs \<Longrightarrow> \<not> P x) \<Longrightarrow> find P (xs @ ys) = find P ys"
  by (induction xs) simp_all

lemma find_filter_implied:
  "(\<And>x. P x \<Longrightarrow> Q x) \<Longrightarrow> find P (filter Q xs) = find P xs"
  by (induction xs) auto

lemma find_own_property_order:
  "find (\<lambda>kv. endsWith (fst kv) ''/'' \<and> startsWith ident (fst kv)) (own_property_order kvs)
     = find (\<lambda>kv. endsWith (fst kv) ''/'' \<and> startsWith ident (fst kv)) kvs"
proof -
  let ?P = "\<lambda>kv :: string \<times> 'a. endsWith (fst kv) ''/'' \<and> startsWith ident (fst kv)"
  have "find ?P (own_property_order kvs)
          = find ?P (filter (\<lambda>kv. \<not> is_array_index (fst kv)) kvs)"
    unfolding own_property_order_def
    by (rule find_append_none) (auto dest: array_index_no_slash)
  also have "\<dots> = find ?P kvs"
    by (rule find_filter_implied) (auto dest: array_index_no_slash)
  finally show ?thesis .
qed

lemma prefix_mapping_insertion_order:
  "prefix_mapping (own_property_order kvs) ident = prefix_mapping kvs ident"
  by (simp add: prefix_mapping_find find_own_property_order)

text \<open>
  What the code computes. The resolver returns \<^verbatim>\<open>imports[specifier]\<close> when that value is
  truthy. When it is not, the resolver goes through the entries in the order of their
  insertion and, for the first key that ends in a slash and is a prefix of the specifier,
  returns the target followed by the rest of the specifier (the first match, not the
  longest); when there is none, it returns \<^verbatim>\<open>null\<close>. With
  \<^verbatim>\<open>imports = {"@a/": "X/", "@a/b/": "Y/"}\<close> the specifier \<^verbatim>\<open>@a/b/c\<close> resolves to \<^verbatim>\<open>X/b/c\<close>.
\<close>

lemma resolver_first_match:
  assumes i: "im_imports im = Some imps"
  shows "(\<forall>target. map_of imps ident = Some target \<and> target \<noteq> [] \<longrightarrow>
            resolveFromImportMap im ident = Str target)
       \<and> (map_of imps ident = None \<and> ident \<notin> set Object_prototype_members \<longrightarrow>
            resolveFromImportMap im ident =
              (case find (\<lambda>kv. endsWith (fst kv) ''/'' \<and> startsWith ident (fst kv)) imps of
                 Some kv \<Rightarrow> Str (snd kv @ drop (length (fst kv)) ident)
               | None \<Rightarrow> Null))"
proof -
  from i have a: "\<forall>target. map_of imps ident = Some target \<and> target \<noteq> [] \<longrightarrow>
        resolveFromImportMap im ident = Str target"
    by (simp add: resolveFromImportMap_def get_member_def)
  from i have c: "map_of imps ident = None \<and> ident \<notin> set Object_prototype_members \<longrightarrow>
        resolveFromImportMap im ident =
          (case find (\<lambda>kv. endsWith (fst kv) ''/'' \<and> startsWith ident (fst kv)) imps of
             Some kv \<Rightarrow> Str (snd kv @ drop (length (fst kv)) ident)
           | None \<Rightarrow> Null)"
    by (auto simp: resolveFromImportMap_def get_member_def prefix_mapping_find
        find_own_property_order)
  from a c show ?thesis by blast
qed

lemma resolver_untruthy_lookup:
  assumes i: "im_imports im = Some imps"
    and u: "\<not> is_truthy (get_member imps ident)"
  shows "resolveFromImportMap im ident =
          (case find (\<lambda>kv. endsWith (fst kv) ''/'' \<and> startsWith ident (fst kv)) imps of
             Some kv \<Rightarrow> Str (snd kv @ drop (length (fst kv)) ident)
           | None \<Rightarrow> Null)"
  using i u
  by (simp add: resolveFromImportMap_def prefix_mapping_find find_own_property_order)

lemma resolver_tie_break:
  "resolveFromImportMap
      \<lparr> im_imports = Some [(''@a/'', ''X/''), (''@a/b/'', ''Y/'')], im_scopes = None \<rparr> ''@a/b/c''
     = Str ''X/b/c''"
  by (simp add: resolveFromImportMap_def get_member_def Object_prototype_members_def
      prefix_mapping_insertion_order endsWith_def startsWith_def)

lemma resolver_examples:
  "resolveFromImportMap
      \<lparr> im_imports = Some [(''@a/b'', ''cd''), (''@demo/'', ''http://x/'')], im_scopes = None \<rparr> ''@a/b''
     = Str ''cd''
   \<and> resolveFromImportMap
      \<lparr> im_imports = Some [(''@a/b'', ''cd''), (''@demo/'', ''http://x/'')], im_scopes = None \<rparr>
      ''@demo/foo.js''
     = Str ''http://x/foo.js''
   \<and> resolveFromImportMap
      \<lparr> im_imports = Some [(''@a/b'', ''cd''), (''@demo/'', ''http://x/'')], im_scopes = None \<rparr>
      ''@missing''
     = Null"
proof -
  define imps where "imps = [(''@a/b'', ''cd''), (''@demo/'', ''http://x/'')]"
  define im where "im = \<lparr> im_imports = Some imps, im_scopes = None \<rparr>"
  have i: "im_imports im = Some imps" by (simp add: im_def)
  have "resolveFromImportMap im ''@a/b'' = Str ''cd''"
    using resolver_first_match [OF i, of "''@a/b''"] by (simp add: imps_def)
  moreover have "resolveFromImportMap im ''@demo/foo.js'' = Str ''http://x/foo.js''"
    using resolver_first_match [OF i, of "''@demo/foo.js''"]
    by (simp add: imps_def Object_prototype_members_def endsWith_def startsWith_def)
  moreover have "resolveFromImportMap im ''@missing'' = Null"
    using resolver_first_match [OF i, of "''@missing''"]
    by (simp add: imps_def Object_prototype_members_def endsWith_def startsWith_def)
  ultimately show ?thesis unfolding im_def imps_def by - (intro conjI; assumption)
qed

text \<open>
  C6. The claim is what the resolver is documented to do: ``direct mappings (exact match)''
  first, then prefix mappings, and ``the resolved URL or null if no mapping found''. The
  code takes the direct mapping with \<^verbatim>\<open>if (importMap.imports[id])\<close>, a test of the looked-up
  value and not of the existence of the key, and so departs from the claim in two ways.
  An exact key whose target is the empty string is passed over: with
  \<^verbatim>\<open>imports = {"@a/b": "", "@a/": "X/"}\<close> the specifier \<^verbatim>\<open>@a/b\<close> does not resolve to
  \<^verbatim>\<open>imports["@a/b"]\<close> but to \<^verbatim>\<open>X/b\<close>, through the prefix entry, and with
  \<^verbatim>\<open>imports = {"@a": ""}\<close> the specifier \<^verbatim>\<open>@a\<close> resolves to \<^verbatim>\<open>null\<close>. And a specifier that is
  no key at all but names a member that every object inherits from \<^verbatim>\<open>Object.prototype\<close> is
  resolved to that member: with \<^verbatim>\<open>imports = {"@a/": "X/"}\<close> the specifier \<^verbatim>\<open>constructor\<close>,
  for which there is neither an exact key nor a prefix, resolves to the function
  \<^verbatim>\<open>Object\<close> instead of \<^verbatim>\<open>null\<close>.
\<close>

theorem C6_direct_mapping_tests_value_not_key:
  "map_of [(''@a/b'', ''''), (''@a/'', ''X/'')] ''@a/b'' = Some ''''
   \<and> resolveFromImportMap
        \<lparr> im_imports = Some [(''@a/b'', ''''), (''@a/'', ''X/'')], im_scopes = None \<rparr> ''@a/b''
       = Str ''X/b''
   \<and> map_of [(''@a'', '''')] ''@a'' = Some ''''
   \<and> resolveFromImportMap \<lparr> im_imports = Some [(''@a'', '''')], im_scopes = None \<rparr> ''@a'' = Null
   \<and> map_of [(''@a/'', ''X/'')] ''constructor'' = None
   \<and> find (\<lambda>kv. endsWith (fst kv) ''/'' \<and> startsWith ''constructor'' (fst kv)) [(''@a/'', ''X/'')]
       = None
   \<and> resolveFromImportMap \<lparr> im_imports = Some [(''@a/'', ''X/'')], im_scopes = None \<rparr>
        ''constructor''
       = Inherited ''constructor''"
  by (simp add: resolveFromImportMap_def get_member_def Object_prototype_members_def
      prefix_mapping_insertion_order endsWith_def startsWith_def)

section \<open>The pattern and the text it describes\<close>

lemma semi_not_terminator: "\<not> is_line_terminator CHR '';''"
  by (simp add: is_line_terminator_def)

lemma rx_star_dot:
  "rx_match [Star dot, Opt semi, Eol] prev rest = Some (length (takeWhile dot rest))"
proof (induction rest arbitrary: prev)
  case Nil
  show ?case by (simp add: at_line_end_def)
next
  case (Cons c cs)
  show ?case
  proof (cases "is_line_terminator c")
    case True
    then have "c \<noteq> CHR '';''" using semi_not_terminator by auto
    with True show ?thesis by (simp add: at_line_end_def)
  next
    case False
    with Cons.IH [of "Some c"] show ?thesis by simp
  qed
qed

lemma rx_plus_dot:
  "rx_match [Plus dot, Opt semi, Eol] prev rest =
     (case rest of [] \<Rightarrow> None
      | c # cs \<Rightarrow> if is_line_terminator c then None else Some (length (takeWhile dot rest)))"
  by (cases rest) (simp_all add: rx_star_dot)

lemma rx_literal:
  "rx_match (map lit s @ R) prev rest =
     (if prefix s rest
      then (case rx_match R (if s = [] then prev else Some (last s)) (drop (length s) rest) of
              None \<Rightarrow> None
            | Some n \<Rightarrow> Some (length s + n))
      else None)"
proof (induction s arbitrary: prev rest)
  case Nil
  show ?case by (simp split: option.splits)
next
  case (Cons ch s)
  show ?case
  proof (cases rest)
    case Nil
    then show ?thesis by simp
  next
    case (Cons c cs)
    show ?thesis
    proof (cases "c = ch")
      case False
      with Cons show ?thesis by simp
    next
      case True
      with Cons Cons.IH [of "Some c" cs] show ?thesis
        by (cases "prefix s cs") (auto split: option.splits)
    qed
  qed
qed

lemma rx_star_white:
  assumes fails: "\<And>p c cs. is_white_space c \<Longrightarrow> rx_match R p (c # cs) = None"
    and indep: "\<And>p p' r. rx_match R p r = rx_match R p' r"
  shows "rx_match (Star is_white_space # R) prev rest =
           (case rx_match R None (dropWhile is_white_space rest) of
              None \<Rightarrow> None
            | Some n \<Rightarrow> Some (length (takeWhile is_white_space rest) + n))"
proof (induction rest arbitrary: prev)
  case Nil
  show ?case using indep [of prev "[]" None] by (simp split: option.splits)
next
  case (Cons c cs)
  show ?case
  proof (cases "is_white_space c")
    case False
    then show ?thesis using indep [of prev "c # cs" None] by (simp split: option.splits)
  next
    case True
    show ?thesis
    proof (cases "rx_match R None (dropWhile is_white_space cs)")
      case None
      with True Cons.IH [of "Some c"] fails [OF True] show ?thesis by simp
    next
      case (Some n)
      with True Cons.IH [of "Some c"] show ?thesis by simp
    qed
  qed
qed

lemma import_regex_split: "import_regex = Bol # Star is_white_space # import_tail"
  by (simp add: import_regex_def import_tail_def)

lemma rx_after_import:
  "rx_match [One is_white_space, Plus dot, Opt semi, Eol] prev rest =
     (case rest of
        [] \<Rightarrow> None
      | w # r \<Rightarrow>
          if is_white_space w \<and> r \<noteq> [] \<and> \<not> is_line_terminator (hd r)
          then Some (Suc (length (takeWhile dot r)))
          else None)"
  by (cases rest) (auto simp: rx_plus_dot split: list.splits)

lemma rx_import_tail:
  "rx_match import_tail prev rest =
     (if prefix ''import'' rest
      then (case rx_match [One is_white_space, Plus dot, Opt semi, Eol] (Some CHR ''t'')
                   (drop (length ''import'') rest) of
              None \<Rightarrow> None
            | Some n \<Rightarrow> Some (length ''import'' + n))
      else None)"
  unfolding import_tail_def by (subst rx_literal) simp

lemma i_not_white: "\<not> is_white_space CHR ''i''"
  by (simp add: is_white_space_def)

lemma rx_import_regex:
  "rx_match import_regex prev rest =
     (if at_line_start prev
      then (case rx_match import_tail None (dropWhile is_white_space rest) of
              None \<Rightarrow> None
            | Some n \<Rightarrow> Some (length (takeWhile is_white_space rest) + n))
      else None)"
proof -
  have fails: "rx_match import_tail p (c # cs) = None" if "is_white_space c" for p c cs
  proof -
    from that i_not_white have "c \<noteq> CHR ''i''" by auto
    then show ?thesis by (simp add: rx_import_tail)
  qed
  have indep: "rx_match import_tail p r = rx_match import_tail p' r" for p p' r
    by (simp add: rx_import_tail)
  show ?thesis
    unfolding import_regex_split
    by (simp add: rx_star_white [of import_tail, OF fails indep])
qed

lemma takeWhile_exact:
  "list_all P xs \<Longrightarrow> (ys = [] \<or> \<not> P (hd ys)) \<Longrightarrow> takeWhile P (xs @ ys) = xs"
  by (induction xs) (auto simp: takeWhile_eq_Nil_iff neq_Nil_conv)

lemma dropWhile_exact:
  "list_all P xs \<Longrightarrow> (ys = [] \<or> \<not> P (hd ys)) \<Longrightarrow> dropWhile P (xs @ ys) = ys"
  by (induction xs) (auto simp: dropWhile_eq_self_iff neq_Nil_conv)

lemma at_line_end_dropWhile: "at_line_end (dropWhile dot r)"
proof (cases "dropWhile dot r")
  case Nil
  show ?thesis unfolding at_line_end_def Nil by simp
next
  case (Cons c cs)
  then have "dropWhile dot r \<noteq> []" by simp
  from hd_dropWhile [OF this] Cons show ?thesis by (simp add: at_line_end_def)
qed

lemma rx_import_regex_Some_iff:
  "rx_match import_regex prev rest = Some n \<longleftrightarrow>
     at_line_start prev \<and> import_statement_match rest n"
proof
  assume m: "rx_match import_regex prev rest = Some n"
  define k where "k = length (takeWhile is_white_space rest)"
  define r1 where "r1 = dropWhile is_white_space rest"
  from m have s: "at_line_start prev" by (simp add: rx_import_regex split: if_splits)
  with m obtain m1 where m1: "rx_match import_tail None r1 = Some m1" and n: "n = k + m1"
    by (auto simp: rx_import_regex k_def r1_def split: option.splits)
  from m1 have p: "prefix ''import'' r1" by (simp add: rx_import_tail split: if_splits)
  with m1 obtain m2 where
    m2: "rx_match [One is_white_space, Plus dot, Opt semi, Eol] (Some CHR ''t'')
           (drop (length ''import'') r1) = Some m2"
    and n1: "m1 = length ''import'' + m2"
    by (auto simp: rx_import_tail split: option.splits)
  from m2 obtain w r where d: "drop (length ''import'') r1 = w # r"
    and w: "is_white_space w" and r: "r \<noteq> []" "\<not> is_line_terminator (hd r)"
    and n2: "m2 = Suc (length (takeWhile dot r))"
    by (auto simp: rx_after_import split: list.splits if_splits)
  define line where "line = takeWhile dot r"
  from r have l: "line \<noteq> []" by (cases r) (simp_all add: line_def)
  have la: "list_all dot line" unfolding line_def list_all_iff by (auto dest: set_takeWhileD)
  from p obtain rest1 where "r1 = ''import'' @ rest1" by (auto simp: prefix_def)
  with d have r1: "r1 = ''import'' @ w # r" by simp
  have rr: "r = line @ dropWhile dot r" by (simp add: line_def)
  define pre where "pre = takeWhile is_white_space rest @ ''import'' @ [w] @ line"
  have rest: "rest = pre @ dropWhile dot r"
  proof -
    have "rest = takeWhile is_white_space rest @ r1" by (simp add: r1_def)
    also have "r1 = ''import'' @ [w] @ r" using r1 by simp
    also have "r = line @ dropWhile dot r" by (rule rr)
    finally show ?thesis by (simp add: pre_def)
  qed
  have len: "n = length pre"
    using n n1 n2 by (simp add: k_def line_def pre_def)
  have dr: "drop n rest = dropWhile dot r"
  proof -
    have "drop (length pre) (pre @ dropWhile dot r) = dropWhile dot r" by simp
    with rest len show ?thesis by simp
  qed
  have "import_statement_match rest n"
    unfolding import_statement_match_def
  proof (intro exI conjI)
    show "list_all is_white_space (takeWhile is_white_space rest)"
      unfolding list_all_iff by (auto dest: set_takeWhileD)
    show "is_white_space w" by (rule w)
    show "line \<noteq> []" by (rule l)
    show "list_all dot line" by (rule la)
    show "n = length (takeWhile is_white_space rest @ ''import'' @ [w] @ line)"
      using len by (simp only: pre_def)
    show "rest = takeWhile is_white_space rest @ ''import'' @ [w] @ line @ drop n rest"
      using rest dr by (simp add: pre_def)
    show "at_line_end (drop n rest)" using dr at_line_end_dropWhile [of r] by simp
  qed
  with s show "at_line_start prev \<and> import_statement_match rest n" by simp
next
  assume "at_line_start prev \<and> import_statement_match rest n"
  then obtain ws w line where s: "at_line_start prev"
    and ws: "list_all is_white_space ws" and w: "is_white_space w" and l: "line \<noteq> []"
    and la: "list_all dot line"
    and n: "n = length (ws @ ''import'' @ [w] @ line)"
    and rest: "rest = ws @ ''import'' @ [w] @ line @ drop n rest"
    and e: "at_line_end (drop n rest)"
    by (auto simp: import_statement_match_def)
  define rest' where "rest' = drop n rest"
  from e have e': "rest' = [] \<or> \<not> dot (hd rest')"
    by (cases rest') (simp_all add: at_line_end_def rest'_def)
  from rest have rest2: "rest = ws @ (''import'' @ [w] @ line @ rest')" by (simp add: rest'_def)
  have nw: "''import'' @ [w] @ line @ rest' = [] \<or>
            \<not> is_white_space (hd (''import'' @ [w] @ line @ rest'))"
    using i_not_white by simp
  have tw: "takeWhile is_white_space rest = ws"
    by (subst rest2) (rule takeWhile_exact [OF ws nw])
  have dw: "dropWhile is_white_space rest = ''import'' @ [w] @ line @ rest'"
    by (subst rest2) (rule dropWhile_exact [OF ws nw])
  have tl: "takeWhile dot (line @ rest') = line" by (rule takeWhile_exact [OF la e'])
  from l la have hl: "\<not> is_line_terminator (hd (line @ rest'))"
    by (cases line) simp_all
  have "rx_match [One is_white_space, Plus dot, Opt semi, Eol] (Some CHR ''t'') (w # line @ rest')
          = Some (Suc (length line))"
    using w l hl tl by (subst rx_after_import) simp
  then have "rx_match import_tail None (dropWhile is_white_space rest) = Some (7 + length line)"
    by (simp add: rx_import_tail dw)
  with s tw n show "rx_match import_regex prev rest = Some n"
    by (simp add: rx_import_regex)
qed

section \<open>Properties of the sender injector\<close>

lemma import_statement_at_iff:
  "import_statement_at code start n \<longleftrightarrow>
     start \<le> length code \<and>
     rx_match import_regex (char_before code start) (drop start code) = Some n"
  by (auto simp: import_statement_at_def rx_import_regex_Some_iff)

lemma import_statement_at_bound:
  "import_statement_at code start n \<Longrightarrow> start + n \<le> length code"
  using rx_match_bounds [of import_regex "char_before code start" "drop start code" n]
  by (auto simp: import_statement_at_iff)

lemma rx_exec_None_iff:
  "rx_exec import_regex code i = None \<longleftrightarrow>
     (\<forall>start n. i \<le> start \<longrightarrow> \<not> import_statement_at code start n)"
proof
  assume "rx_exec import_regex code i = None"
  then show "\<forall>start n. i \<le> start \<longrightarrow> \<not> import_statement_at code start n"
    using rx_exec_None [of import_regex code i] by (auto simp: import_statement_at_iff)
next
  assume a: "\<forall>start n. i \<le> start \<longrightarrow> \<not> import_statement_at code start n"
  show "rx_exec import_regex code i = None"
  proof (rule ccontr)
    assume "rx_exec import_regex code i \<noteq> None"
    then obtain idx e where "rx_exec import_regex code i = Some (idx, e)" by auto
    from rx_exec_Some [OF this] a show False by (auto simp: import_statement_at_iff)
  qed
qed

lemma last_import_end_result:
  "(rx_exec import_regex code li = None \<and> last_import_end code li acc = acc)
   \<or> (\<exists>start n. li \<le> start \<and> import_statement_at code start n
         \<and> last_import_end code li acc = int (start + n)
         \<and> rx_exec import_regex code (start + n) = None)"
proof (induction code li acc rule: last_import_end.induct)
  case (1 code li acc)
  show ?case
  proof (cases "rx_exec import_regex code li")
    case None
    then show ?thesis by simp
  next
    case (Some p)
    obtain idx e where p: "p = (idx, e)" by (cases p)
    with Some have ex: "rx_exec import_regex code li = Some (idx, e)" by simp
    from rx_exec_Some [OF ex] obtain n where
      b: "li \<le> idx" "idx \<le> length code"
      and m: "rx_match import_regex (char_before code idx) (drop idx code) = Some n"
      and e: "e = idx + n"
      by blast
    from b m have at: "import_statement_at code idx n" by (simp add: import_statement_at_iff)
    from import_exec_advances [OF ex] have adv: "li < e" by simp
    have unfold: "last_import_end code li acc = last_import_end code e (int e)"
      using ex by simp
    from "1.IH" [OF Some p [symmetric]]
    have ih: "(rx_exec import_regex code e = None \<and> last_import_end code e (int e) = int e)
       \<or> (\<exists>start n. e \<le> start \<and> import_statement_at code start n
             \<and> last_import_end code e (int e) = int (start + n)
             \<and> rx_exec import_regex code (start + n) = None)" .
    then show ?thesis
    proof
      assume "rx_exec import_regex code e = None \<and> last_import_end code e (int e) = int e"
      with at b e unfold show ?thesis by auto
    next
      assume "\<exists>start n. e \<le> start \<and> import_statement_at code start n
             \<and> last_import_end code e (int e) = int (start + n)
             \<and> rx_exec import_regex code (start + n) = None"
      then obtain start k where "e \<le> start" "import_statement_at code start k"
        "last_import_end code e (int e) = int (start + k)"
        "rx_exec import_regex code (start + k) = None"
        by blast
      with adv unfold have "li \<le> start \<and> import_statement_at code start k
         \<and> last_import_end code li acc = int (start + k)
         \<and> rx_exec import_regex code (start + k) = None"
        by simp
      then show ?thesis by blast
    qed
  qed
qed

lemma findLastImportStatement_none:
  assumes "\<forall>start n. \<not> import_statement_at code start n"
  shows "findLastImportStatement code = - 1"
proof -
  from assms have "rx_exec import_regex code 0 = None" by (simp add: rx_exec_None_iff)
  then show ?thesis by (simp add: findLastImportStatement_def)
qed

lemma findLastImportStatement_some:
  assumes "import_statement_at code s0 n0"
  shows "\<exists>start n. import_statement_at code start n
           \<and> findLastImportStatement code = int (start + n)
           \<and> (\<forall>later m. import_statement_at code later m \<longrightarrow> later < start + n)"
proof -
  from assms have "rx_exec import_regex code 0 \<noteq> None"
    by (auto simp: rx_exec_None_iff)
  with last_import_end_result [of code 0 "- 1"]
  obtain start n where at: "import_statement_at code start n"
    and r: "last_import_end code 0 (- 1) = int (start + n)"
    and none: "rx_exec import_regex code (start + n) = None"
    by blast
  from none have "\<forall>later m. import_statement_at code later m \<longrightarrow> later < start + n"
    by (auto simp: rx_exec_None_iff not_le [symmetric])
  with at r show ?thesis by (auto simp: findLastImportStatement_def)
qed

lemma transform_other:
  "transform Build senderFile code ident = Inr None"
  "\<not> endsWith ident ''/vite/dist/client/client.mjs'' \<Longrightarrow>
     transform runEnv_command senderFile code ident = Inr None"
  by (simp_all add: transform_def)

lemma transform_keeps_code:
  assumes "transform runEnv_command (Some imsScript) code ident = Inr (Some out)"
  shows "\<exists>i inserted. i \<le> length code \<and> out = take i code @ inserted @ drop i code
           \<and> (inserted = imsScript @ newline \<or> inserted = newline @ imsScript @ newline)"
proof (cases "findLastImportStatement code = - 1")
  case True
  with assms have "out = take 0 code @ (imsScript @ newline) @ drop 0 code"
    by (auto simp: transform_def split: if_splits)
  then show ?thesis by blast
next
  case False
  then have "rx_exec import_regex code 0 \<noteq> None"
    by (cases "rx_exec import_regex code 0") (auto simp: findLastImportStatement_def)
  with last_import_end_result [of code 0 "- 1"]
  obtain start n where at: "import_statement_at code start n"
    and r: "findLastImportStatement code = int (start + n)"
    by (auto simp: findLastImportStatement_def)
  from assms r have "out = take (start + n) code @ (newline @ imsScript @ newline)
                            @ drop (start + n) code"
    by (auto simp: transform_def Let_def simp del: of_nat_add split: if_splits)
  with import_statement_at_bound [OF at] show ?thesis by blast
qed

lemma example_client_find: "findLastImportStatement example_client = 42"
  by code_simp

text \<open>
  The class \<^verbatim>\<open>\s\<close> contains the line terminators, so a match can run over a line break:
  the word \<^verbatim>\<open>import\<close> at the end of one line and the text of the next line form one match.
\<close>

lemma match_over_line_break:
  "findLastImportStatement (''import'' @ newline @ ''{ a } from \"b\";'') = 22"
  by code_simp


lemma example_client_import_at: "import_statement_at example_client 20 22"
  unfolding import_statement_at_iff by code_simp

subsection \<open>The scan and the splice point\<close>

text \<open>
  The list of a scan is unique, and the loop of \<^verbatim>\<open>findLastImportStatement\<close> returns the end
  of its last entry.
\<close>

lemma import_statement_at_fun:
  "import_statement_at code start n \<Longrightarrow> import_statement_at code start m \<Longrightarrow> m = n"
  by (simp add: import_statement_at_iff)

lemma import_scan_unique:
  "import_scan code i ms \<Longrightarrow> import_scan code i ms' \<Longrightarrow> ms' = ms"
proof (induction arbitrary: ms' rule: import_scan.induct)
  case (scan_done i)
  from scan_done.prems show ?case
  proof (cases rule: import_scan.cases)
    case scan_done
    then show ?thesis by simp
  next
    case (scan_match start n ms)
    with scan_done.hyps show ?thesis by blast
  qed
next
  case (scan_match i start n ms)
  from scan_match.prems show ?case
  proof (cases rule: import_scan.cases)
    case scan_done
    with scan_match.hyps(1,2) show ?thesis by blast
  next
    case inner: (scan_match start' n' rest)
    have s: "start' = start"
    proof (rule ccontr)
      assume "start' \<noteq> start"
      then consider "start' < start" | "start < start'" by linarith
      then show False
      proof cases
        case 1
        with scan_match.hyps(3) inner(2,3) show False by blast
      next
        case 2
        with inner(4) scan_match.hyps(1,2) show False by blast
      qed
    qed
    with inner(3) scan_match.hyps(2) have n: "n' = n" by (simp add: import_statement_at_iff)
    from inner(5) s n have "import_scan code (start + n) rest" by simp
    from scan_match.IH [OF this] have "rest = ms" .
    with inner(1) s n show ?thesis by simp
  qed
qed

lemma import_scan_loop:
  "\<exists>ms. import_scan code li ms
     \<and> last_import_end code li acc = (if ms = [] then acc else int (match_end (last ms)))"
proof (induction code li acc rule: last_import_end.induct)
  case (1 code li acc)
  show ?case
  proof (cases "rx_exec import_regex code li")
    case None
    then have "\<forall>start n. li \<le> start \<longrightarrow> \<not> import_statement_at code start n"
      by (simp add: rx_exec_None_iff)
    then have "import_scan code li []" by (rule scan_done)
    moreover from None have "last_import_end code li acc = acc" by simp
    ultimately show ?thesis by (intro exI [of _ "[]"]) simp
  next
    case (Some p)
    obtain idx e where p: "p = (idx, e)" by (cases p)
    with Some have ex: "rx_exec import_regex code li = Some (idx, e)" by simp
    from rx_exec_Some [OF ex] obtain n where
      b: "li \<le> idx" "idx \<le> length code"
      and m: "rx_match import_regex (char_before code idx) (drop idx code) = Some n"
      and e: "e = idx + n"
      and before: "\<forall>j. li \<le> j \<and> j < idx \<longrightarrow>
                     rx_match import_regex (char_before code j) (drop j code) = None"
      by blast
    from b m have at: "import_statement_at code idx n" by (simp add: import_statement_at_iff)
    from before have nb: "\<forall>s m. li \<le> s \<and> s < idx \<longrightarrow> \<not> import_statement_at code s m"
      by (simp add: import_statement_at_iff)
    have unfold: "last_import_end code li acc = last_import_end code e (int e)"
      using ex by simp
    from "1.IH" [OF Some p [symmetric]] obtain ms where
      sc: "import_scan code e ms"
      and r: "last_import_end code e (int e) = (if ms = [] then int e else int (match_end (last ms)))"
      by blast
    from sc e have "import_scan code (idx + n) ms" by simp
    from scan_match [OF b(1) at nb this] have sc': "import_scan code li ((idx, n) # ms)" .
    from unfold r e have "last_import_end code li acc = int (match_end (last ((idx, n) # ms)))"
      by (simp add: match_end_def)
    with sc' show ?thesis by (intro exI [of _ "(idx, n) # ms"]) simp
  qed
qed

lemma findLastImportStatement_scan:
  assumes "import_scan code 0 ms"
  shows "findLastImportStatement code = (if ms = [] then - 1 else int (match_end (last ms)))"
proof -
  from import_scan_loop [of code 0 "- 1"] obtain ms' where
    s: "import_scan code 0 ms'"
    and r: "last_import_end code 0 (- 1) = (if ms' = [] then - 1 else int (match_end (last ms')))"
    by blast
  from import_scan_unique [OF assms s] r show ?thesis
    by (simp add: findLastImportStatement_def)
qed

lemma transform_scan:
  assumes "runEnv_command \<noteq> Build" and "endsWith ident ''/vite/dist/client/client.mjs''"
    and "import_scan code 0 ms"
  shows "transform runEnv_command (Some imsScript) code ident =
           Inr (Some (if ms = [] then imsScript @ newline @ code
                      else take (match_end (last ms)) code @ newline @ imsScript @ newline
                           @ drop (match_end (last ms)) code))"
  using assms(1,2) findLastImportStatement_scan [OF assms(3)]
  by (simp add: transform_def Let_def)

lemma example_client_scan: "import_scan example_client 0 [(0, 19), (20, 22)]"
proof -
  have a0: "import_statement_at example_client 0 19"
    unfolding import_statement_at_iff by code_simp
  have a1: "import_statement_at example_client 20 22"
    unfolding import_statement_at_iff by code_simp
  have n19: "rx_match import_regex (char_before example_client 19) (drop 19 example_client) = None"
    by code_simp
  have e: "rx_exec import_regex example_client 42 = None"
    by code_simp
  from e have "\<forall>start n. 42 \<le> start \<longrightarrow> \<not> import_statement_at example_client start n"
    by (simp add: rx_exec_None_iff)
  then have s2: "import_scan example_client (20 + 22) []"
    by (intro scan_done) simp
  have b1: "\<forall>s m. 19 \<le> s \<and> s < 20 \<longrightarrow> \<not> import_statement_at example_client s m"
  proof (intro allI impI)
    fix s m :: nat
    assume "19 \<le> s \<and> s < 20"
    then have "s = 19" by simp
    with n19 show "\<not> import_statement_at example_client s m"
      by (simp add: import_statement_at_iff)
  qed
  have "(19::nat) \<le> 20" by simp
  from scan_match [OF this a1 b1 s2] have s1: "import_scan example_client (0 + 19) [(20, 22)]"
    by simp
  have b0: "\<forall>s m. 0 \<le> s \<and> s < 0 \<longrightarrow> \<not> import_statement_at example_client s m"
    by simp
  have "(0::nat) \<le> 0" by simp
  from scan_match [OF this a0 b0 s1] show ?thesis .
qed

text \<open>
  Matches may overlap, and then the scan does not reach the one that begins inside another:
  in the three lines \<^verbatim>\<open>import\<close>, \<^verbatim>\<open>import\<close>, \<^verbatim>\<open>foo\<close> the first two lines are a match and
  the last two are one as well; the scan finds the first only, and the splice point is the
  end of the second line.
\<close>

lemma overlapping_matches_example:
  "import_statement_at (''import'' @ newline @ ''import'' @ newline @ ''foo'') 7 10
   \<and> import_scan (''import'' @ newline @ ''import'' @ newline @ ''foo'') 0 [(0, 13)]
   \<and> findLastImportStatement (''import'' @ newline @ ''import'' @ newline @ ''foo'') = 13"
proof -
  define code where "code = ''import'' @ newline @ ''import'' @ newline @ ''foo''"
  have a0: "import_statement_at code 0 13"
    unfolding import_statement_at_iff code_def by code_simp
  have a1: "import_statement_at code 7 10"
    unfolding import_statement_at_iff code_def by code_simp
  have e: "rx_exec import_regex code 13 = None"
    unfolding code_def by code_simp
  then have "\<forall>start n. 13 \<le> start \<longrightarrow> \<not> import_statement_at code start n"
    by (simp add: rx_exec_None_iff)
  then have s1: "import_scan code (0 + 13) []"
    by (intro scan_done) simp
  have b0: "\<forall>s m. 0 \<le> s \<and> s < 0 \<longrightarrow> \<not> import_statement_at code s m"
    by simp
  have "(0::nat) \<le> 0" by simp
  from scan_match [OF this a0 b0 s1] have sc: "import_scan code 0 [(0, 13)]" .
  from findLastImportStatement_scan [OF sc] have f: "findLastImportStatement code = 13"
    by (simp add: match_end_def)
  from a1 sc f show ?thesis unfolding code_def by - (intro conjI; assumption)
qed

text \<open>
  C8. The claim finds the import statements line by line and prepends the sender script
  when no line is one. The pattern is applied to the whole text, and its class \<^verbatim>\<open>\s\<close>
  contains the line terminators: in the text \<^verbatim>\<open>import\<close>, line break, \<^verbatim>\<open>foo\<close> neither of the
  two lines matches the pattern, yet the two lines together are one match, and the sender
  script is spliced in after \<^verbatim>\<open>foo\<close> instead of being prepended.
\<close>

theorem C8_line_by_line_counterexample:
  "spec_lines (''import'' @ newline @ ''foo'') = [''import'', ''foo'']
   \<and> \<not> spec_line_is_import ''import''
   \<and> \<not> spec_line_is_import ''foo''
   \<and> \<not> spec_has_import_line (''import'' @ newline @ ''foo'')
   \<and> findLastImportStatement (''import'' @ newline @ ''foo'') = 10
   \<and> transform Serve (Some ''SENDER'') (''import'' @ newline @ ''foo'')
         ''/node_modules/vite/dist/client/client.mjs''
       = Inr (Some (''import'' @ newline @ ''foo'' @ newline @ ''SENDER'' @ newline))"
proof -
  have l: "spec_lines (''import'' @ newline @ ''foo'') = [''import'', ''foo'']"
    by (simp add: newline_def is_line_terminator_def)
  have a: "\<not> spec_line_is_import ''import''"
    unfolding spec_line_is_import_def by code_simp
  have b: "\<not> spec_line_is_import ''foo''"
    unfolding spec_line_is_import_def by code_simp
  from l a b have h: "\<not> spec_has_import_line (''import'' @ newline @ ''foo'')"
    by (simp add: spec_has_import_line_def)
  have f: "findLastImportStatement (''import'' @ newline @ ''foo'') = 10"
    by code_simp
  have i: "endsWith ''/node_modules/vite/dist/client/client.mjs'' ''/vite/dist/client/client.mjs''"
    by (simp add: endsWith_def)
  from f i have t: "transform Serve (Some ''SENDER'') (''import'' @ newline @ ''foo'')
         ''/node_modules/vite/dist/client/client.mjs''
       = Inr (Some (''import'' @ newline @ ''foo'' @ newline @ ''SENDER'' @ newline))"
    by (simp add: transform_def Let_def newline_def)
  from l a b h f t show ?thesis by - (intro conjI; assumption)
qed

text \<open>
  C8, amended. In serve mode, for the client script \<^verbatim>\<open>.../vite/dist/client/client.mjs\<close>,
  the text is searched from left to right for matches of the pattern
  \<^verbatim>\<open>^\s*import\s.+;?$\<close>, each search starting at the end of the match before. A match begins
  at a line start, consists of optional white space, the word \<^verbatim>\<open>import\<close>, one white-space
  character and a non-empty rest of a line, and ends at the end of that line; the white
  space may contain line breaks, so a match can run over several lines. The matches found
  form exactly one list. When it is empty, the result is the sender script, a line break
  and the code. Otherwise the result is the code up to the end of the last match of the
  list, a line break, the sender script, a line break, and the rest of the code. In both
  cases the code itself is kept as it is: no import statement is rewritten.
\<close>

theorem C8_sender_spliced_after_last_match_of_scan:
  "runEnv_command \<noteq> Build \<Longrightarrow> endsWith ident ''/vite/dist/client/client.mjs'' \<Longrightarrow>
     \<exists>ms. import_scan code 0 ms
        \<and> (\<forall>ms'. import_scan code 0 ms' \<longrightarrow> ms' = ms)
        \<and> findLastImportStatement code = (if ms = [] then - 1 else int (match_end (last ms)))
        \<and> transform runEnv_command (Some imsScript) code ident =
            Inr (Some (if ms = [] then imsScript @ newline @ code
                       else take (match_end (last ms)) code @ newline @ imsScript @ newline
                            @ drop (match_end (last ms)) code))"
proof -
  assume c: "runEnv_command \<noteq> Build" and i: "endsWith ident ''/vite/dist/client/client.mjs''"
  from import_scan_loop [of code 0 "- 1"] obtain ms where s: "import_scan code 0 ms"
    by blast
  have u: "\<forall>ms'. import_scan code 0 ms' \<longrightarrow> ms' = ms"
    using import_scan_unique [OF s] by blast
  from s u findLastImportStatement_scan [OF s] transform_scan [OF c i s, of imsScript]
  show ?thesis by blast
qed

theorem C8_sender_spliced_after_last_match_of_scan_witness:
  "Serve \<noteq> Build
   \<and> endsWith ''/node_modules/vite/dist/client/client.mjs'' ''/vite/dist/client/client.mjs''
   \<and> import_scan example_client 0 [(0, 19), (20, 22)]
   \<and> findLastImportStatement example_client = 42
   \<and> transform Serve (Some ''SENDER'') example_client ''/node_modules/vite/dist/client/client.mjs''
       = Inr (Some (''import \"@vite/env\";'' @ newline @ ''import { x } from \"y\";'' @ newline
                    @ ''SENDER'' @ newline @ newline @ ''const a = 1;''))"
proof -
  have c: "Serve \<noteq> Build" by simp
  have i: "endsWith ''/node_modules/vite/dist/client/client.mjs'' ''/vite/dist/client/client.mjs''"
    by (simp add: endsWith_def)
  from C8_sender_spliced_after_last_match_of_scan [OF c i, of example_client "''SENDER''"]
  obtain ms where u: "\<forall>ms'. import_scan example_client 0 ms' \<longrightarrow> ms' = ms"
    and f: "findLastImportStatement example_client
              = (if ms = [] then - 1 else int (match_end (last ms)))"
    and t: "transform Serve (Some ''SENDER'') example_client
              ''/node_modules/vite/dist/client/client.mjs'' =
            Inr (Some (if ms = [] then ''SENDER'' @ newline @ example_client
                       else take (match_end (last ms)) example_client @ newline @ ''SENDER''
                            @ newline @ drop (match_end (last ms)) example_client))"
    by blast
  from u example_client_scan have ms: "ms = [(0, 19), (20, 22)]" by blast
  from f ms have f': "findLastImportStatement example_client = 42"
    by (simp add: match_end_def)
  from t ms have "transform Serve (Some ''SENDER'') example_client
              ''/node_modules/vite/dist/client/client.mjs'' =
            Inr (Some (take 42 example_client @ newline @ ''SENDER'' @ newline
                       @ drop 42 example_client))"
    by (simp add: match_end_def)
  then have t': "transform Serve (Some ''SENDER'') example_client
              ''/node_modules/vite/dist/client/client.mjs'' =
            Inr (Some (''import \"@vite/env\";'' @ newline @ ''import { x } from \"y\";'' @ newline
                    @ ''SENDER'' @ newline @ newline @ ''const a = 1;''))"
    by (simp add: example_client_def newline_def)
  from c i example_client_scan f' t' show ?thesis by - (intro conjI; assumption)
qed

end
